theory Spec2Isabelle
  imports Main
begin

section \<open>JavaScript strings\<close>

text \<open>
  A string of the program that holds user input is a list of UTF-16 code units. The model
  has the code units U+0000 to U+00FF (\<open>Latin1 c\<close>, with \<open>c\<close> the code) and the three code
  units outside that range that case mapping reaches from there: U+0178 (the upper case of
  U+00FF), U+039C (the upper case of U+00B5) and U+03BC (the lower case of U+039C). This set
  is closed under \<open>toUpperCase\<close> and \<open>toLowerCase\<close>. Strings that the program only builds
  and passes along (messages, keys, codes, ids, time stamps, the source tag) are HOL
  strings.
\<close>

datatype CodeUnit = Latin1 char | U0178 | U039C | U03BC

type_synonym JsString = "CodeUnit list"

text \<open>A string literal of the source.\<close>

definition js :: "string \<Rightarrow> JsString" where
  "js s = map Latin1 s"

text \<open>
  White space, as \<open>trim\<close> removes it and as the class \<open>\s\<close> matches it: among the code units
  of the model these are tab, line feed, vertical tab, form feed, carriage return, space and
  the no-break space U+00A0.
\<close>

fun isSpace :: "CodeUnit \<Rightarrow> bool" where
  "isSpace (Latin1 c) =
     (c = CHR 0x09 \<or> c = CHR 0x0A \<or> c = CHR 0x0B \<or> c = CHR 0x0C \<or> c = CHR 0x0D \<or> c = CHR '' '' \<or>
      c = CHR 0xA0)"
| "isSpace U0178 = False"
| "isSpace U039C = False"
| "isSpace U03BC = False"

definition trimStart :: "JsString \<Rightarrow> JsString" where
  "trimStart s = dropWhile isSpace s"

definition trimEnd :: "JsString \<Rightarrow> JsString" where
  "trimEnd s = rev (dropWhile isSpace (rev s))"

definition trim :: "JsString \<Rightarrow> JsString" where
  "trim s = trimEnd (trimStart s)"

text \<open>
  Lower case: A-Z and the capital letters U+00C0 to U+00DE of Latin-1 (but the
  multiplication sign U+00D7) move up by 32; U+0178 becomes U+00FF and U+039C becomes
  U+03BC.
\<close>

definition lowerLatin1 :: "char \<Rightarrow> char" where
  "lowerLatin1 c =
     (let n = (of_char c :: nat)
      in if (65 \<le> n \<and> n \<le> 90) \<or> (192 \<le> n \<and> n \<le> 222 \<and> n \<noteq> 215) then char_of (n + 32) else c)"

fun toLowerUnit :: "CodeUnit \<Rightarrow> CodeUnit" where
  "toLowerUnit (Latin1 c) = Latin1 (lowerLatin1 c)"
| "toLowerUnit U0178 = Latin1 (CHR 0xFF)"
| "toLowerUnit U039C = U03BC"
| "toLowerUnit U03BC = U03BC"

text \<open>
  Upper case: a-z and the small letters U+00E0 to U+00FE of Latin-1 (but the division sign
  U+00F7) move down by 32; the sharp s U+00DF becomes the two letters \<open>SS\<close>; the micro sign
  U+00B5 becomes U+039C, U+00FF becomes U+0178 and U+03BC becomes U+039C.
\<close>

definition upperLatin1 :: "char \<Rightarrow> char" where
  "upperLatin1 c =
     (let n = (of_char c :: nat)
      in if (97 \<le> n \<and> n \<le> 122) \<or> (224 \<le> n \<and> n \<le> 254 \<and> n \<noteq> 247) then char_of (n - 32) else c)"

fun toUpperUnit :: "CodeUnit \<Rightarrow> JsString" where
  "toUpperUnit (Latin1 c) =
     (if c = CHR 0xDF then [Latin1 CHR ''S'', Latin1 CHR ''S'']
      else if c = CHR 0xB5 then [U039C]
      else if c = CHR 0xFF then [U0178]
      else [Latin1 (upperLatin1 c)])"
| "toUpperUnit U0178 = [U0178]"
| "toUpperUnit U039C = [U039C]"
| "toUpperUnit U03BC = [U039C]"

definition toUpperCase :: "JsString \<Rightarrow> JsString" where
  "toUpperCase s = concat (map toUpperUnit s)"

definition toLowerCase :: "JsString \<Rightarrow> JsString" where
  "toLowerCase s = map toLowerUnit s"

text \<open>\<open>s.replace(/<[^>]*>/g, '')\<close>: scanning from the left, a \<open><\<close> that has a \<open>>\<close> somewhere
  after it is removed together with everything up to and including the first such \<open>>\<close>.\<close>

function stripTags :: "JsString \<Rightarrow> JsString" where
  "stripTags [] = []"
| "stripTags (c # cs) =
     (if c = Latin1 CHR ''<'' \<and> Latin1 CHR ''>'' \<in> set cs
      then stripTags (tl (dropWhile (\<lambda>x. x \<noteq> Latin1 CHR ''>'') cs))
      else c # stripTags cs)"
  by pat_completeness auto
termination
proof (relation "measure length")
  fix c :: CodeUnit and cs :: JsString
  have "length (tl (dropWhile (\<lambda>x. x \<noteq> Latin1 CHR ''>'') cs)) \<le> length cs"
    using length_dropWhile_le [of "\<lambda>x. x \<noteq> Latin1 CHR ''>''" cs] by simp
  then show "(tl (dropWhile (\<lambda>x. x \<noteq> Latin1 CHR ''>'') cs), c # cs) \<in> measure length"
    by simp
qed simp_all

text \<open>\<open>s.replace(/\s+/g, ' ')\<close>: every maximal run of white space becomes one space.\<close>

function normalizeWhitespace :: "JsString \<Rightarrow> JsString" where
  "normalizeWhitespace [] = []"
| "normalizeWhitespace (c # cs) =
     (if isSpace c then Latin1 CHR '' '' # normalizeWhitespace (dropWhile isSpace cs)
      else c # normalizeWhitespace cs)"
  by pat_completeness auto
termination
proof (relation "measure length")
  fix c :: CodeUnit and cs :: JsString
  show "(dropWhile isSpace cs, c # cs) \<in> measure length"
    using length_dropWhile_le [of isSpace cs] by simp
qed simp_all

text \<open>\<open>s.split(sep)\<close> for a separator of one code unit: never the empty list.\<close>

fun split :: "CodeUnit \<Rightarrow> JsString \<Rightarrow> JsString list" where
  "split sep [] = [[]]"
| "split sep (c # cs) =
     (if c = sep then [] # split sep cs
      else (case split sep cs of [] \<Rightarrow> [[c]] | w # ws \<Rightarrow> (c # w) # ws))"

fun join :: "CodeUnit \<Rightarrow> JsString list \<Rightarrow> JsString" where
  "join sep [] = []"
| "join sep [w] = w"
| "join sep (w # v # ws) = w @ sep # join sep (v # ws)"

text \<open>Decimal rendering of a number inside a template string.\<close>

function showNat :: "nat \<Rightarrow> string" where
  "showNat n =
     (if n < 10 then [char_of (48 + n)] else showNat (n div 10) @ [char_of (48 + n mod 10)])"
  by pat_completeness auto
termination
  by (relation "measure id") auto

declare showNat.simps [simp del]

section \<open>Types (src/types/index.ts)\<close>

datatype FormField = Name | Email | Subscribed_newsletter | Message | Company | Phone

text \<open>The key of a field, as it appears in a template string.\<close>

fun fieldKey :: "FormField \<Rightarrow> string" where
  "fieldKey Name = ''name''"
| "fieldKey Email = ''email''"
| "fieldKey Subscribed_newsletter = ''subscribed_newsletter''"
| "fieldKey Message = ''message''"
| "fieldKey Company = ''company''"
| "fieldKey Phone = ''phone''"

text \<open>An optional field is \<open>None\<close> when the key is absent or bound to \<open>undefined\<close>.\<close>

record FormData =
  name :: JsString
  email :: JsString
  subscribed_newsletter :: bool
  message :: "JsString option"
  company :: "JsString option"
  phone :: "JsString option"

text \<open>A row of \<open>interest_submissions\<close> (utils/database.types.ts) has the fields of the form,
  the source and the time stamp; the stored row has an \<open>id\<close> too.\<close>

record InterestSubmissionInsert = FormData +
  source :: string
  submitted_at :: string

record InterestSubmission = InterestSubmissionInsert +
  id' :: string

record ValidationError =
  field :: FormField
  message :: string
  code :: string

record ValidationResult =
  isValid :: bool
  errors :: "ValidationError list"

text \<open>The argument type \<open>string | boolean | undefined\<close> of \<open>validateField\<close>.\<close>

datatype FieldValue = VString JsString | VBoolean bool | VUndefined

section \<open>Constants (utils/constants.ts)\<close>

datatype Pattern = NamePattern | EmailPattern | PhonePattern

record Rules =
  minLength :: "nat option"
  maxLength :: "nat option"
  pattern :: "Pattern option"
  required :: bool

text \<open>\<open>VALIDATION_RULES[field]\<close>: there is no entry for \<open>subscribed_newsletter\<close>.\<close>

fun VALIDATION_RULES :: "FormField \<Rightarrow> Rules option" where
  "VALIDATION_RULES Name =
     Some \<lparr>minLength = Some 2, maxLength = Some 50, pattern = Some NamePattern, required = True\<rparr>"
| "VALIDATION_RULES Email =
     Some \<lparr>minLength = Some 5, maxLength = Some 254, pattern = Some EmailPattern, required = True\<rparr>"
| "VALIDATION_RULES Message =
     Some \<lparr>minLength = Some 10, maxLength = Some 1000, pattern = None, required = False\<rparr>"
| "VALIDATION_RULES Company =
     Some \<lparr>minLength = Some 2, maxLength = Some 100, pattern = None, required = False\<rparr>"
| "VALIDATION_RULES Phone =
     Some \<lparr>minLength = None, maxLength = None, pattern = Some PhonePattern, required = False\<rparr>"
| "VALIDATION_RULES Subscribed_newsletter = None"

text \<open>The classes \<open>[a-zA-Z]\<close> and \<open>\d\<close>.\<close>

fun isLetter :: "CodeUnit \<Rightarrow> bool" where
  "isLetter (Latin1 c) =
     (let n = (of_char c :: nat) in (97 \<le> n \<and> n \<le> 122) \<or> (65 \<le> n \<and> n \<le> 90))"
| "isLetter u = False"

fun isDigit :: "CodeUnit \<Rightarrow> bool" where
  "isDigit (Latin1 c) = (let n = (of_char c :: nat) in 48 \<le> n \<and> n \<le> 57)"
| "isDigit u = False"

text \<open>\<open>/^[a-zA-Z\s'-]+$/\<close>\<close>

definition nameChar :: "CodeUnit \<Rightarrow> bool" where
  "nameChar c = (isLetter c \<or> isSpace c \<or> c = Latin1 CHR 0x27 \<or> c = Latin1 CHR ''-'')"

definition testNamePattern :: "JsString \<Rightarrow> bool" where
  "testNamePattern s = (s \<noteq> [] \<and> list_all nameChar s)"

text \<open>\<open>/^[^\s@]+@[^\s@]+\.[^\s@]+$/\<close>: a non-empty local part, one \<open>@\<close>, and a domain with
  a dot that is neither its first nor its last character; no white space and no other
  \<open>@\<close> anywhere.\<close>

definition emailChar :: "CodeUnit \<Rightarrow> bool" where
  "emailChar c = (\<not> isSpace c \<and> c \<noteq> Latin1 CHR ''@'')"

definition testEmailPattern :: "JsString \<Rightarrow> bool" where
  "testEmailPattern s =
     (takeWhile emailChar s \<noteq> [] \<and>
      (case dropWhile emailChar s of
         [] \<Rightarrow> False
       | c # d \<Rightarrow>
           c = Latin1 CHR ''@'' \<and> list_all emailChar d \<and> Latin1 CHR ''.'' \<in> set (butlast (tl d))))"

text \<open>\<open>/^[\+]?[1-9][\d]{0,15}$/\<close>\<close>

definition testPhonePattern :: "JsString \<Rightarrow> bool" where
  "testPhonePattern s =
     (case (case s of [] \<Rightarrow> [] | c # r \<Rightarrow> if c = Latin1 CHR ''+'' then r else s) of
        [] \<Rightarrow> False
      | d # ds \<Rightarrow> isDigit d \<and> d \<noteq> Latin1 CHR ''0'' \<and> length ds \<le> 15 \<and> list_all isDigit ds)"

fun test :: "Pattern \<Rightarrow> JsString \<Rightarrow> bool" where
  "test NamePattern s = testNamePattern s"
| "test EmailPattern s = testEmailPattern s"
| "test PhonePattern s = testPhonePattern s"

text \<open>\<open>ERROR_MESSAGES\<close>\<close>

definition msg_required :: "FormField \<Rightarrow> string" where
  "msg_required f = fieldKey f @ '' is required''"

definition msg_minLength :: "FormField \<Rightarrow> nat \<Rightarrow> string" where
  "msg_minLength f m = fieldKey f @ '' must be at least '' @ showNat m @ '' characters long''"

definition msg_maxLength :: "FormField \<Rightarrow> nat \<Rightarrow> string" where
  "msg_maxLength f m = fieldKey f @ '' must be no more than '' @ showNat m @ '' characters long''"

definition msg_invalidFormat :: "FormField \<Rightarrow> string" where
  "msg_invalidFormat f = ''Invalid '' @ fieldKey f @ '' format''"

definition msg_invalidEmail :: string where
  "msg_invalidEmail = ''Please enter a valid email address''"

definition msg_invalidPhone :: string where
  "msg_invalidPhone = ''Please enter a valid phone number''"

definition msg_invalidName :: string where
  "msg_invalidName = ''Name can only contain letters, spaces, hyphens, and apostrophes''"

section \<open>Validation and sanitization (utils/validation.ts)\<close>

definition sanitizeInput :: "JsString \<Rightarrow> JsString" where
  "sanitizeInput input =
     (if input = [] then [] else normalizeWhitespace (stripTags (trim input)))"

definition sanitizeEmail :: "JsString \<Rightarrow> JsString" where
  "sanitizeEmail e = (if e = [] then [] else toLowerCase (trim e))"

text \<open>\<open>word.charAt(0).toUpperCase() + word.slice(1).toLowerCase()\<close>\<close>

definition capitalizeWord :: "JsString \<Rightarrow> JsString" where
  "capitalizeWord w = toUpperCase (take 1 w) @ toLowerCase (drop 1 w)"

definition sanitizeName :: "JsString \<Rightarrow> JsString" where
  "sanitizeName n =
     (if n = [] then []
      else join (Latin1 CHR '' '') (map capitalizeWord (split (Latin1 CHR '' '') (sanitizeInput n))))"

definition validateField :: "FormField \<Rightarrow> FieldValue \<Rightarrow> ValidationError option" where
  "validateField f v =
     (case VALIDATION_RULES f of
        None \<Rightarrow> Some \<lparr>field = f, message = msg_invalidFormat f, code = ''INVALID_FIELD''\<rparr>
      | Some rules \<Rightarrow>
          (case v of
             VBoolean b \<Rightarrow> None
           | VUndefined \<Rightarrow>
               (if required rules
                then Some \<lparr>field = f, message = msg_required f, code = ''REQUIRED_FIELD''\<rparr>
                else None)
           | VString stringValue \<Rightarrow>
               (let trimmedValue = trim stringValue in
                if required rules \<and> trimmedValue = []
                then Some \<lparr>field = f, message = msg_required f, code = ''REQUIRED_FIELD''\<rparr>
                else if \<not> required rules \<and> trimmedValue = [] then None
                else if (case minLength rules of
                           None \<Rightarrow> False
                         | Some m \<Rightarrow> m \<noteq> 0 \<and> length trimmedValue < m)
                then Some \<lparr>field = f, message = msg_minLength f (the (minLength rules)),
                            code = ''MIN_LENGTH''\<rparr>
                else if (case maxLength rules of
                           None \<Rightarrow> False
                         | Some m \<Rightarrow> m \<noteq> 0 \<and> length trimmedValue > m)
                then Some \<lparr>field = f, message = msg_maxLength f (the (maxLength rules)),
                            code = ''MAX_LENGTH''\<rparr>
                else if (case pattern rules of
                           None \<Rightarrow> False
                         | Some p \<Rightarrow> \<not> test p trimmedValue)
                then Some \<lparr>field = f,
                            message = (if f = Email then msg_invalidEmail
                                       else if f = Phone then msg_invalidPhone
                                       else if f = Name then msg_invalidName
                                       else msg_invalidFormat f),
                            code = ''INVALID_PATTERN''\<rparr>
                else None)))"

text \<open>\<open>formData[field]\<close>\<close>

fun fieldValue :: "FormData \<Rightarrow> FormField \<Rightarrow> FieldValue" where
  "fieldValue d Name = VString (name d)"
| "fieldValue d Email = VString (email d)"
| "fieldValue d Subscribed_newsletter = VBoolean (subscribed_newsletter d)"
| "fieldValue d Message = (case FormData.message d of None \<Rightarrow> VUndefined | Some s \<Rightarrow> VString s)"
| "fieldValue d Company = (case company d of None \<Rightarrow> VUndefined | Some s \<Rightarrow> VString s)"
| "fieldValue d Phone = (case phone d of None \<Rightarrow> VUndefined | Some s \<Rightarrow> VString s)"

text \<open>
  \<open>Object.keys(formData)\<close>, in the order in which every object literal of the repository
  (that of \<open>sanitizeFormData\<close> among them) lists the keys. An optional key that is absent is
  enumerated here with the value \<open>undefined\<close>: \<open>validateField\<close> answers \<open>null\<close> for it, so
  the list of errors is the one the loop over the present keys builds.
\<close>

definition objectKeys :: "FormField list" where
  "objectKeys = [Name, Email, Subscribed_newsletter, Message, Company, Phone]"

definition validateFormData :: "FormData \<Rightarrow> ValidationResult" where
  "validateFormData formData =
     (let errs = List.map_filter (\<lambda>k. validateField k (fieldValue formData k)) objectKeys
      in \<lparr>isValid = (length errs = 0), errors = errs\<rparr>)"

text \<open>\<open>value ? sanitizeInput(value) : undefined\<close>: the empty string is falsy.\<close>

definition sanitizeOptional :: "JsString option \<Rightarrow> JsString option" where
  "sanitizeOptional v =
     (case v of None \<Rightarrow> None | Some s \<Rightarrow> if s = [] then None else Some (sanitizeInput s))"

definition sanitizeFormData :: "FormData \<Rightarrow> FormData" where
  "sanitizeFormData formData =
     \<lparr>name = sanitizeName (name formData),
      email = sanitizeEmail (email formData),
      subscribed_newsletter = subscribed_newsletter formData,
      message = sanitizeOptional (FormData.message formData),
      company = sanitizeOptional (company formData),
      phone = sanitizeOptional (phone formData)\<rparr>"

text \<open>The result \<open>{...validationResult, sanitizedData}\<close> as a pair.\<close>

definition validateAndSanitizeFormData :: "FormData \<Rightarrow> ValidationResult \<times> FormData" where
  "validateAndSanitizeFormData formData =
     (let sanitizedData = sanitizeFormData formData;
          validationResult = validateFormData sanitizedData
      in (validationResult, sanitizedData))"

section \<open>Database operations (utils/database.ts)\<close>

text \<open>
  Numbers are natural numbers: the attempt counter, the configured number of attempts, the
  delays and the multiplier are non-negative integers wherever the repository sets them.
\<close>

text \<open>The thrown value \<open>PostgrestError | Error\<close>: an \<open>Error\<close> carries its message, a
  \<open>PostgrestError\<close> its code and its message.\<close>

datatype DbError = Error string | PostgrestError string string

fun errorMessage :: "DbError \<Rightarrow> string" where
  "errorMessage (Error m) = m"
| "errorMessage (PostgrestError c m) = m"

record 'a DatabaseResult =
  data :: "'a option"
  error :: "DbError option"
  success :: bool

record RetryConfig =
  maxAttempts :: nat
  delayMs :: nat
  backoffMultiplier :: nat

definition DEFAULT_RETRY_CONFIG :: RetryConfig where
  "DEFAULT_RETRY_CONFIG = \<lparr>maxAttempts = 3, delayMs = 1000, backoffMultiplier = 2\<rparr>"

text \<open>
  What one run of \<open>withRetry\<close> does: the value it returns (\<open>Inr\<close>) or throws (\<open>Inl\<close>, with
  \<open>None\<close> for the unassigned \<open>lastError\<close>), the number of times it called \<open>fn\<close>, and the
  delays it waited, in order.
\<close>

record ('e, 'a) RetryRun =
  outcome :: "'e option + 'a"
  calls :: nat
  delays :: "nat list"

text \<open>
  The loop of \<open>withRetry\<close>. \<open>fn k\<close> is what the \<open>k\<close>-th call of \<open>fn\<close> does: it returns a value
  (\<open>Inr\<close>) or throws (\<open>Inl\<close>).
\<close>

function withRetry_loop ::
  "(nat \<Rightarrow> 'e + 'a) \<Rightarrow> RetryConfig \<Rightarrow> nat \<Rightarrow> 'e option \<Rightarrow> nat list \<Rightarrow> ('e, 'a) RetryRun" where
  "withRetry_loop fn config attempt lastError waited =
     (if attempt \<le> maxAttempts config then
        (case fn attempt of
           Inr v \<Rightarrow> \<lparr>outcome = Inr v, calls = attempt, delays = waited\<rparr>
         | Inl err \<Rightarrow>
             if attempt = maxAttempts config
             then \<lparr>outcome = Inl (Some err), calls = attempt, delays = waited\<rparr>
             else withRetry_loop fn config (attempt + 1) (Some err)
                    (waited @ [delayMs config * backoffMultiplier config ^ (attempt - 1)]))
      else \<lparr>outcome = Inl lastError, calls = attempt - 1, delays = waited\<rparr>)"
  by pat_completeness auto
termination
  by (relation "measure (\<lambda>(fn, config, attempt, lastError, waited). maxAttempts config + 1 - attempt)")
    auto

declare withRetry_loop.simps [simp del]

definition withRetry :: "(nat \<Rightarrow> 'e + 'a) \<Rightarrow> RetryConfig \<Rightarrow> ('e, 'a) RetryRun" where
  "withRetry fn config = withRetry_loop fn config 1 None []"

definition handleDatabaseError :: "DbError \<Rightarrow> DbError" where
  "handleDatabaseError err =
     (case err of
        Error m \<Rightarrow> Error m
      | PostgrestError c m \<Rightarrow>
          if c = ''23505'' then Error ''This email is already registered''
          else if c = ''23502'' then Error ''Required fields are missing''
          else if c = ''23503'' then Error ''Referenced record does not exist''
          else if c = ''42P01'' then Error ''Database table not found''
          else if c = ''42501'' then Error ''Insufficient database privileges''
          else Error (if m = [] then ''Database operation failed'' else m))"

text \<open>
  What the store answers to one insert request: the call throws, or it resolves to
  \<open>{data, error}\<close>.
\<close>

datatype Reply = Threw string | Resolved "InterestSubmission option" "DbError option"

text \<open>The function handed to \<open>withRetry\<close>: \<open>if (error) throw error; return data\<close>.\<close>

definition insertRequest :: "Reply \<Rightarrow> DbError + InterestSubmission option" where
  "insertRequest r =
     (case r of
        Threw m \<Rightarrow> Inl (Error m)
      | Resolved d e \<Rightarrow> (case e of Some err \<Rightarrow> Inl err | None \<Rightarrow> Inr d))"

text \<open>A promise settles: it is fulfilled with a value or rejected with a message.\<close>

datatype 'a Settled = Fulfilled 'a | Rejected string

record SubmitRun =
  settled :: "InterestSubmission DatabaseResult Settled"
  networkCalls :: nat
  waits :: "nat list"

text \<open>
  \<open>submitInterestForm\<close>. The environment is explicit: whether Supabase is configured, the
  clock (\<open>Date.now()\<close> and the ISO time stamp), and the store, which answers the \<open>k\<close>-th
  insert of a payload with \<open>remote payload k\<close>. Handling the unassigned \<open>lastError\<close> reads
  \<open>code\<close> of \<open>undefined\<close>, which rejects the promise.
\<close>

definition submitInterestForm ::
  "bool \<Rightarrow> nat \<Rightarrow> string \<Rightarrow> (InterestSubmissionInsert \<Rightarrow> nat \<Rightarrow> Reply) \<Rightarrow> FormData \<Rightarrow> string \<Rightarrow> SubmitRun" where
  "submitInterestForm isSupabaseConfigured nowMs nowIso remote formData src =
     (if \<not> isSupabaseConfigured then
        \<lparr>settled = Fulfilled
           \<lparr>data = Some \<lparr>name = name formData, email = email formData,
                          subscribed_newsletter = subscribed_newsletter formData,
                          message = FormData.message formData, company = company formData,
                          phone = phone formData, source = src, submitted_at = nowIso,
                          id' = ''mock-'' @ showNat nowMs\<rparr>,
            error = None, success = True\<rparr>,
         networkCalls = 0, waits = [1000]\<rparr>
      else
        (let submissionData =
               \<lparr>name = name formData, email = email formData,
                subscribed_newsletter = subscribed_newsletter formData,
                message = FormData.message formData, company = company formData,
                phone = phone formData, source = src, submitted_at = nowIso\<rparr>;
             run = withRetry (\<lambda>k. insertRequest (remote submissionData k)) DEFAULT_RETRY_CONFIG
         in \<lparr>settled =
               (case outcome run of
                  Inr result \<Rightarrow> Fulfilled \<lparr>data = result, error = None, success = True\<rparr>
                | Inl (Some err) \<Rightarrow>
                    Fulfilled \<lparr>data = None, error = Some (handleDatabaseError err), success = False\<rparr>
                | Inl None \<Rightarrow> Rejected ''TypeError''),
             networkCalls = calls run, waits = delays run\<rparr>))"

section \<open>Timers of the event loop\<close>

text \<open>
  The pending timeouts, in the order in which they were armed: the id \<open>setTimeout\<close> returned,
  the time at which the callback is due, and what the callback closes over. Ids start at 1,
  so that an id is truthy.
\<close>

record 'p EventLoop =
  now :: nat
  nextTimerId :: nat
  timers :: "(nat \<times> nat \<times> 'p) list"

definition setTimeout ::
  "'p \<Rightarrow> nat \<Rightarrow> ('p, 'z) EventLoop_scheme \<Rightarrow> nat \<times> ('p, 'z) EventLoop_scheme" where
  "setTimeout callback delay l =
     (nextTimerId l,
      l\<lparr>nextTimerId := nextTimerId l + 1,
        timers := timers l @ [(nextTimerId l, now l + delay, callback)]\<rparr>)"

definition clearTimeout :: "nat \<Rightarrow> ('p, 'z) EventLoop_scheme \<Rightarrow> ('p, 'z) EventLoop_scheme" where
  "clearTimeout i l = l\<lparr>timers := filter (\<lambda>t. fst t \<noteq> i) (timers l)\<rparr>"

text \<open>\<open>if (ref.current) clearTimeout(ref.current)\<close>\<close>

definition clearRef :: "nat option \<Rightarrow> ('p, 'z) EventLoop_scheme \<Rightarrow> ('p, 'z) EventLoop_scheme" where
  "clearRef r l = (case r of None \<Rightarrow> l | Some i \<Rightarrow> clearTimeout i l)"

text \<open>
  Time passes until \<open>t\<close>: the timeouts due by then fire in the order of their due times
  (timeouts due at the same time in the order in which they were armed), each at its due
  time; \<open>run\<close> is the callback. No callback of the hooks below arms or clears a timeout.
\<close>

definition advance ::
  "('p \<Rightarrow> ('p, 'z) EventLoop_scheme \<Rightarrow> ('p, 'z) EventLoop_scheme) \<Rightarrow> nat \<Rightarrow>
   ('p, 'z) EventLoop_scheme \<Rightarrow> ('p, 'z) EventLoop_scheme" where
  "advance run t l =
     (let due = sort_key (\<lambda>u. fst (snd u)) (filter (\<lambda>u. fst (snd u) \<le> t) (timers l));
          l' = fold (\<lambda>u h. run (snd (snd u)) ((clearTimeout (fst u) h)\<lparr>now := max (now h) (fst (snd u))\<rparr>))
                 due l
      in l'\<lparr>now := max (now l') t\<rparr>)"

section \<open>The hook useEmailCheck (hooks/useSupabase.ts)\<close>

record EmailCheckState =
  exists :: "bool option"
  loading :: bool
  error :: "string option"

record EmailCheckOptions =
  debounceMs :: "nat option"

text \<open>
  The hook instance: its timeouts close over the email to check; \<open>requests\<close> lists the calls
  of \<open>checkEmailExists\<close> made so far, each with the time of the call and its argument.
\<close>

record EmailCheckHook = "JsString EventLoop" +
  state :: EmailCheckState
  debounceTimeoutRef :: "nat option"
  requests :: "(nat \<times> JsString) list"

definition useEmailCheck :: EmailCheckHook where
  "useEmailCheck =
     \<lparr>now = 0, nextTimerId = 1, timers = [],
      state = \<lparr>exists = None, loading = False, error = None\<rparr>,
      debounceTimeoutRef = None, requests = []\<rparr>"

text \<open>\<open>performCheck\<close>, up to the call of \<open>checkEmailExists\<close>.\<close>

definition performCheck :: "JsString \<Rightarrow> EmailCheckHook \<Rightarrow> EmailCheckHook" where
  "performCheck e h =
     (if e = [] \<or> trim e = []
      then h\<lparr>state := \<lparr>exists = None, loading = False, error = None\<rparr>\<rparr>
      else h\<lparr>state := (state h)\<lparr>loading := True, error := None\<rparr>,
             requests := requests h @ [(now h, toLowerCase (trim e))]\<rparr>)"

text \<open>\<open>performCheck\<close>, from the answer of \<open>checkEmailExists\<close> on.\<close>

definition checkSettled :: "bool DatabaseResult Settled \<Rightarrow> EmailCheckHook \<Rightarrow> EmailCheckHook" where
  "checkSettled r h =
     (case r of
        Fulfilled result \<Rightarrow>
          if success result
          then h\<lparr>state := \<lparr>exists = data result, loading = False, error = None\<rparr>\<rparr>
          else h\<lparr>state := \<lparr>exists = None, loading = False,
                             error = Some (case DatabaseResult.error result of
                                             None \<Rightarrow> ''Failed to check email''
                                           | Some err \<Rightarrow>
                                               if errorMessage err = [] then ''Failed to check email''
                                               else errorMessage err)\<rparr>\<rparr>
      | Rejected m \<Rightarrow> h\<lparr>state := \<lparr>exists = None, loading = False, error = Some m\<rparr>\<rparr>)"

text \<open>\<open>options.debounceMs || 500\<close>: zero is falsy.\<close>

definition debounceDelay :: "EmailCheckOptions \<Rightarrow> nat" where
  "debounceDelay options =
     (case debounceMs options of None \<Rightarrow> 500 | Some d \<Rightarrow> if d = 0 then 500 else d)"

definition checkEmail :: "EmailCheckOptions \<Rightarrow> JsString \<Rightarrow> bool \<Rightarrow> EmailCheckHook \<Rightarrow> EmailCheckHook" where
  "checkEmail options e immediate h =
     (let h1 = clearRef (debounceTimeoutRef h) h in
      if immediate then performCheck e h1
      else
        (let delay = debounceDelay options;
             (i, h2) = setTimeout e delay h1
         in h2\<lparr>debounceTimeoutRef := Some i\<rparr>))"

definition resetEmailCheck :: "EmailCheckHook \<Rightarrow> EmailCheckHook" where
  "resetEmailCheck h = h\<lparr>state := \<lparr>exists = None, loading = False, error = None\<rparr>\<rparr>"

definition advanceEmailCheck :: "nat \<Rightarrow> EmailCheckHook \<Rightarrow> EmailCheckHook" where
  "advanceEmailCheck t h = advance performCheck t h"

text \<open>What a caller of the hook can do, the answers of the store, and the passing of time.\<close>

datatype EmailCheckOp =
    CheckEmail JsString bool
  | CheckSettled "bool DatabaseResult Settled"
  | ResetEmailCheck
  | AdvanceEmailCheck nat

fun applyEmailCheckOp :: "EmailCheckOptions \<Rightarrow> EmailCheckOp \<Rightarrow> EmailCheckHook \<Rightarrow> EmailCheckHook" where
  "applyEmailCheckOp options (CheckEmail e immediate) h = checkEmail options e immediate h"
| "applyEmailCheckOp options (CheckSettled r) h = checkSettled r h"
| "applyEmailCheckOp options ResetEmailCheck h = resetEmailCheck h"
| "applyEmailCheckOp options (AdvanceEmailCheck t) h = advanceEmailCheck t h"

definition applyEmailCheckOps ::
  "EmailCheckOptions \<Rightarrow> EmailCheckOp list \<Rightarrow> EmailCheckHook \<Rightarrow> EmailCheckHook" where
  "applyEmailCheckOps options ops h = fold (applyEmailCheckOp options) ops h"

section \<open>The hook useFormSubmission (hooks/useSupabase.ts)\<close>

record SubmissionState =
  loading :: bool
  success :: bool
  error :: "string option"
  data :: "InterestSubmission option"

text \<open>The options \<open>autoReset\<close> and \<open>resetDelay\<close>; the callbacks \<open>onSuccess\<close> and \<open>onError\<close> only
  observe the result and are left out.\<close>

record SubmissionOptions =
  autoReset :: "bool option"
  resetDelay :: "nat option"

text \<open>
  The hook instance. Every pending timeout has the callback \<open>reset\<close>. \<open>inFlight\<close> lists the
  calls of \<open>submitInterestForm\<close> that have not settled yet, with their arguments.
\<close>

record FormSubmissionHook = "unit EventLoop" +
  state :: SubmissionState
  resetTimeoutRef :: "nat option"
  inFlight :: "(FormData \<times> string) list"

definition useFormSubmission :: FormSubmissionHook where
  "useFormSubmission =
     \<lparr>now = 0, nextTimerId = 1, timers = [],
      state = \<lparr>loading = False, success = False, error = None, data = None\<rparr>,
      resetTimeoutRef = None, inFlight = []\<rparr>"

definition reset :: "FormSubmissionHook \<Rightarrow> FormSubmissionHook" where
  "reset h = h\<lparr>state := \<lparr>loading = False, success = False, error = None, data = None\<rparr>\<rparr>"

text \<open>\<open>submit\<close>, up to the call of \<open>submitInterestForm\<close>.\<close>

definition submit :: "FormData \<Rightarrow> string \<Rightarrow> FormSubmissionHook \<Rightarrow> FormSubmissionHook" where
  "submit formData src h =
     h\<lparr>state := (state h)\<lparr>loading := True, error := None, success := False\<rparr>,
       inFlight := inFlight h @ [(formData, src)]\<rparr>"

text \<open>\<open>submit\<close>, from the moment its call of \<open>submitInterestForm\<close> settles: the \<open>k\<close>-th of the
  calls in flight settles with \<open>r\<close>.\<close>

definition submitSettled ::
  "SubmissionOptions \<Rightarrow> nat \<Rightarrow> InterestSubmission DatabaseResult Settled \<Rightarrow>
   FormSubmissionHook \<Rightarrow> FormSubmissionHook" where
  "submitSettled options k r h =
     (if k < length (inFlight h) then
        (let h1 = h\<lparr>inFlight := take k (inFlight h) @ drop (Suc k) (inFlight h)\<rparr> in
         case r of
           Fulfilled result \<Rightarrow>
             if DatabaseResult.success result \<and> DatabaseResult.data result \<noteq> None then
               (let h2 = h1\<lparr>state := \<lparr>loading = False, success = True, error = None,
                                       data = DatabaseResult.data result\<rparr>\<rparr> in
                if autoReset options \<noteq> Some False then
                  (let delay = (case resetDelay options of
                                  None \<Rightarrow> 5000
                                | Some d \<Rightarrow> if d = 0 then 5000 else d);
                       (i, h3) = setTimeout () delay h2
                   in h3\<lparr>resetTimeoutRef := Some i\<rparr>)
                else h2)
             else
               h1\<lparr>state := \<lparr>loading = False, success = False,
                              error = Some (case DatabaseResult.error result of
                                              None \<Rightarrow> ''Form submission failed''
                                            | Some err \<Rightarrow>
                                                if errorMessage err = [] then ''Form submission failed''
                                                else errorMessage err),
                              data = None\<rparr>\<rparr>
         | Rejected m \<Rightarrow>
             h1\<lparr>state := \<lparr>loading = False, success = False, error = Some m, data = None\<rparr>\<rparr>)
      else h)"

text \<open>The cleanup of the effect, on unmount.\<close>

definition unmountFormSubmission :: "FormSubmissionHook \<Rightarrow> FormSubmissionHook" where
  "unmountFormSubmission h = clearRef (resetTimeoutRef h) h"

definition advanceFormSubmission :: "nat \<Rightarrow> FormSubmissionHook \<Rightarrow> FormSubmissionHook" where
  "advanceFormSubmission t h = advance (\<lambda>u. reset) t h"

section \<open>The hook useFormValidation (hooks/useFormValidation.ts)\<close>

record FormValidationState =
  errors :: "ValidationError list"
  isValid :: bool
  isDirty :: bool
  touched :: "FormField set"

record UseFormValidationOptions =
  initialData :: FormData
  debounceMs :: "nat option"
  validateOnMount :: "bool option"
  validateOnBlur :: "bool option"
  validateOnChange :: "bool option"

text \<open>The defaults of the destructuring: they replace \<open>undefined\<close> only.\<close>

definition debounceMsOf :: "UseFormValidationOptions \<Rightarrow> nat" where
  "debounceMsOf options = (case UseFormValidationOptions.debounceMs options of None \<Rightarrow> 300 | Some d \<Rightarrow> d)"

definition validateOnMountOf :: "UseFormValidationOptions \<Rightarrow> bool" where
  "validateOnMountOf options = (case validateOnMount options of None \<Rightarrow> False | Some b \<Rightarrow> b)"

definition validateOnBlurOf :: "UseFormValidationOptions \<Rightarrow> bool" where
  "validateOnBlurOf options = (case validateOnBlur options of None \<Rightarrow> True | Some b \<Rightarrow> b)"

definition validateOnChangeOf :: "UseFormValidationOptions \<Rightarrow> bool" where
  "validateOnChangeOf options = (case validateOnChange options of None \<Rightarrow> False | Some b \<Rightarrow> b)"

text \<open>
  The hook instance. A pending timeout runs \<open>validateForm\<close>, which closes over the form data
  of the render that created it: the timeout carries that form data.
\<close>

record FormValidationHook = "FormData EventLoop" +
  formData :: FormData
  validationState :: FormValidationState
  debounceTimerRef :: "nat option"

definition useFormValidation :: "UseFormValidationOptions \<Rightarrow> FormValidationHook" where
  "useFormValidation options =
     \<lparr>now = 0, nextTimerId = 1, timers = [],
      formData = initialData options,
      validationState = \<lparr>errors = [], isValid = False, isDirty = False, touched = {}\<rparr>,
      debounceTimerRef = None\<rparr>"

definition validateSingleField :: "FormField \<Rightarrow> FieldValue \<Rightarrow> FormValidationHook \<Rightarrow> FormValidationHook" where
  "validateSingleField f v h =
     (let fieldValidation = validateField f v;
          prev = validationState h;
          newErrors = filter (\<lambda>e. field e \<noteq> f) (errors prev) @
                      (case fieldValidation of None \<Rightarrow> [] | Some e \<Rightarrow> [e])
      in h\<lparr>validationState := prev\<lparr>errors := newErrors, isValid := (length newErrors = 0)\<rparr>\<rparr>)"

text \<open>\<open>validateForm\<close>, with the form data it closes over.\<close>

definition validateForm :: "FormData \<Rightarrow> FormValidationHook \<Rightarrow> FormValidationHook" where
  "validateForm closed h =
     (let r = fst (validateAndSanitizeFormData closed)
      in h\<lparr>validationState :=
             (validationState h)\<lparr>errors := ValidationResult.errors r,
                                 isValid := ValidationResult.isValid r\<rparr>\<rparr>)"

text \<open>\<open>debouncedValidate\<close>, with the form data its \<open>validateForm\<close> closes over.\<close>

definition debouncedValidate ::
  "UseFormValidationOptions \<Rightarrow> FormData \<Rightarrow> FormValidationHook \<Rightarrow> FormValidationHook" where
  "debouncedValidate options closed h =
     (let (i, h1) = setTimeout closed (debounceMsOf options) (clearRef (debounceTimerRef h) h)
      in h1\<lparr>debounceTimerRef := Some i\<rparr>)"

text \<open>\<open>{...prev, [field]: value}\<close>, for a value of the type of the field.\<close>

fun setField :: "FormField \<Rightarrow> FieldValue \<Rightarrow> FormData \<Rightarrow> FormData" where
  "setField Name (VString s) d = d\<lparr>name := s\<rparr>"
| "setField Email (VString s) d = d\<lparr>email := s\<rparr>"
| "setField Subscribed_newsletter (VBoolean b) d = d\<lparr>subscribed_newsletter := b\<rparr>"
| "setField Message (VString s) d = d\<lparr>FormData.message := Some s\<rparr>"
| "setField Company (VString s) d = d\<lparr>company := Some s\<rparr>"
| "setField Phone (VString s) d = d\<lparr>phone := Some s\<rparr>"
| "setField f v d = d"

definition updateField ::
  "UseFormValidationOptions \<Rightarrow> FormField \<Rightarrow> FieldValue \<Rightarrow> bool \<Rightarrow>
   FormValidationHook \<Rightarrow> FormValidationHook" where
  "updateField options f v shouldValidate h =
     (let h1 = h\<lparr>formData := setField f v (formData h),
                 validationState :=
                   (validationState h)\<lparr>isDirty := True,
                                       touched := insert f (touched (validationState h))\<rparr>\<rparr>
      in if shouldValidate then
           (if validateOnChangeOf options then validateSingleField f v h1
            else debouncedValidate options (formData h) h1)
         else h1)"

definition handleFieldBlur ::
  "UseFormValidationOptions \<Rightarrow> FormField \<Rightarrow> FormValidationHook \<Rightarrow> FormValidationHook" where
  "handleFieldBlur options f h =
     (if validateOnBlurOf options then
        (case fieldValue (formData h) f of
           VUndefined \<Rightarrow> h
         | v \<Rightarrow> validateSingleField f v h)
      else h)"

definition resetForm :: "UseFormValidationOptions \<Rightarrow> FormValidationHook \<Rightarrow> FormValidationHook" where
  "resetForm options h =
     clearRef (debounceTimerRef h)
       (h\<lparr>formData := initialData options,
          validationState := \<lparr>errors = [], isValid = False, isDirty = False, touched = {}\<rparr>\<rparr>)"

definition setFormDataAndValidate ::
  "UseFormValidationOptions \<Rightarrow> FormData \<Rightarrow> FormValidationHook \<Rightarrow> FormValidationHook" where
  "setFormDataAndValidate options newData h =
     (let h1 = h\<lparr>formData := newData,
                 validationState := (validationState h)\<lparr>isDirty := True\<rparr>\<rparr>
      in if validateOnChangeOf options then validateForm newData h1
         else debouncedValidate options (formData h) h1)"

definition clearFieldError :: "FormField \<Rightarrow> FormValidationHook \<Rightarrow> FormValidationHook" where
  "clearFieldError f h =
     (let prev = validationState h
      in h\<lparr>validationState :=
             prev\<lparr>errors := filter (\<lambda>e. field e \<noteq> f) (errors prev),
                   isValid := (length (filter (\<lambda>e. field e \<noteq> f) (errors prev)) = 0)\<rparr>\<rparr>)"

definition clearAllErrors :: "FormValidationHook \<Rightarrow> FormValidationHook" where
  "clearAllErrors h = h\<lparr>validationState := (validationState h)\<lparr>errors := [], isValid := True\<rparr>\<rparr>"

text \<open>The effect \<open>if (validateOnMount) validateForm()\<close>.\<close>

definition validateOnMountEffect ::
  "UseFormValidationOptions \<Rightarrow> FormValidationHook \<Rightarrow> FormValidationHook" where
  "validateOnMountEffect options h =
     (if validateOnMountOf options then validateForm (formData h) h else h)"

definition advanceFormValidation :: "nat \<Rightarrow> FormValidationHook \<Rightarrow> FormValidationHook" where
  "advanceFormValidation t h = advance validateForm t h"

text \<open>What a caller of the hook can do, and the passing of time.\<close>

datatype FormValidationOp =
    UpdateField FormField FieldValue bool
  | HandleFieldBlur FormField
  | ValidateForm
  | ValidateField FormField FieldValue
  | SetFormData FormData
  | ClearFieldError FormField
  | ClearAllErrors
  | ResetForm
  | ValidateOnMountEffect
  | Advance nat

fun applyOp :: "UseFormValidationOptions \<Rightarrow> FormValidationOp \<Rightarrow> FormValidationHook \<Rightarrow> FormValidationHook" where
  "applyOp options (UpdateField f v shouldValidate) h = updateField options f v shouldValidate h"
| "applyOp options (HandleFieldBlur f) h = handleFieldBlur options f h"
| "applyOp options ValidateForm h = validateForm (formData h) h"
| "applyOp options (ValidateField f v) h = validateSingleField f v h"
| "applyOp options (SetFormData d) h = setFormDataAndValidate options d h"
| "applyOp options (ClearFieldError f) h = clearFieldError f h"
| "applyOp options ClearAllErrors h = clearAllErrors h"
| "applyOp options ResetForm h = resetForm options h"
| "applyOp options ValidateOnMountEffect h = validateOnMountEffect options h"
| "applyOp options (Advance t) h = advanceFormValidation t h"

definition applyOps ::
  "UseFormValidationOptions \<Rightarrow> FormValidationOp list \<Rightarrow> FormValidationHook \<Rightarrow> FormValidationHook" where
  "applyOps options ops h = fold (applyOp options) ops h"

section \<open>Notions used in the properties\<close>

text \<open>A string without white space at either end: a fixed point of \<open>trim\<close>.\<close>

definition trimmed :: "JsString \<Rightarrow> bool" where
  "trimmed s = (s = [] \<or> (\<not> isSpace (hd s) \<and> \<not> isSpace (last s)))"

text \<open>A string without a tag: no \<open><\<close> has a \<open>>\<close> after it. A string in which white space
  is single spaces only.\<close>

fun noTag :: "JsString \<Rightarrow> bool" where
  "noTag [] = True"
| "noTag (c # cs) = ((c = Latin1 CHR ''<'' \<longrightarrow> Latin1 CHR ''>'' \<notin> set cs) \<and> noTag cs)"

fun normalized :: "JsString \<Rightarrow> bool" where
  "normalized [] = True"
| "normalized (c # cs) =
     ((isSpace c \<longrightarrow> c = Latin1 CHR '' '' \<and> (cs = [] \<or> \<not> isSpace (hd cs))) \<and> normalized cs)"

text \<open>
  The sharp s is the one code unit whose upper case is two code units; \<open>upperOne\<close> is the
  first code unit of the upper case. Title case as one pass over the code units: \<open>b\<close> tells
  whether the next code unit starts a word.
\<close>

definition sharpS :: CodeUnit where
  "sharpS = Latin1 (CHR 0xDF)"

definition upperOne :: "CodeUnit \<Rightarrow> CodeUnit" where
  "upperOne u = hd (toUpperUnit u)"

fun titleCase :: "bool \<Rightarrow> JsString \<Rightarrow> JsString" where
  "titleCase b [] = []"
| "titleCase b (c # cs) =
     (if c = Latin1 CHR '' '' then c # titleCase True cs
      else (if b then upperOne c else toLowerUnit c) # titleCase False cs)"

text \<open>
  Stripping the tags of the trimmed string leaves no white space at either end; and an
  optional field that sanitization neither exposes white space in nor empties.
\<close>

definition tagsExposeNoSpace :: "JsString \<Rightarrow> bool" where
  "tagsExposeNoSpace s = (trim (stripTags (trim s)) = stripTags (trim s))"

definition optionalSurvives :: "JsString option \<Rightarrow> bool" where
  "optionalSurvives v =
     (case v of
        None \<Rightarrow> True
      | Some s \<Rightarrow> s = [] \<or> (stripTags (trim s) \<noteq> [] \<and> tagsExposeNoSpace s))"

text \<open>
  The rule table and \<open>validateField\<close> as the specification words them: a required field
  (name, email) that is empty or undefined is an error; an optional field that is empty or
  undefined is valid; otherwise the minimum length, the maximum length and the pattern
  are checked in this order, and the first violated rule is the error.
\<close>

definition isRequiredField :: "FormField \<Rightarrow> bool" where
  "isRequiredField f = (f = Name \<or> f = Email)"

fun spec_minLength :: "FormField \<Rightarrow> nat option" where
  "spec_minLength Name = Some 2"
| "spec_minLength Email = Some 5"
| "spec_minLength Message = Some 10"
| "spec_minLength Company = Some 2"
| "spec_minLength f = None"

fun spec_maxLength :: "FormField \<Rightarrow> nat option" where
  "spec_maxLength Name = Some 50"
| "spec_maxLength Email = Some 254"
| "spec_maxLength Message = Some 1000"
| "spec_maxLength Company = Some 100"
| "spec_maxLength f = None"

fun spec_matches :: "FormField \<Rightarrow> JsString \<Rightarrow> bool" where
  "spec_matches Name s = testNamePattern s"
| "spec_matches Email s = testEmailPattern s"
| "spec_matches Phone s = testPhonePattern s"
| "spec_matches f s = True"

fun spec_patternMessage :: "FormField \<Rightarrow> string" where
  "spec_patternMessage Name = msg_invalidName"
| "spec_patternMessage Email = msg_invalidEmail"
| "spec_patternMessage Phone = msg_invalidPhone"
| "spec_patternMessage f = msg_invalidFormat f"

definition validateField_spec :: "FormField \<Rightarrow> JsString option \<Rightarrow> ValidationError option" where
  "validateField_spec f v =
     (let t = (case v of None \<Rightarrow> [] | Some s \<Rightarrow> trim s) in
      if t = [] then
        (if isRequiredField f
         then Some \<lparr>field = f, message = msg_required f, code = ''REQUIRED_FIELD''\<rparr>
         else None)
      else if (case spec_minLength f of None \<Rightarrow> False | Some m \<Rightarrow> length t < m)
      then Some \<lparr>field = f, message = msg_minLength f (the (spec_minLength f)), code = ''MIN_LENGTH''\<rparr>
      else if (case spec_maxLength f of None \<Rightarrow> False | Some m \<Rightarrow> m < length t)
      then Some \<lparr>field = f, message = msg_maxLength f (the (spec_maxLength f)), code = ''MAX_LENGTH''\<rparr>
      else if \<not> spec_matches f t
      then Some \<lparr>field = f, message = spec_patternMessage f, code = ''INVALID_PATTERN''\<rparr>
      else None)"

fun toFieldValue :: "JsString option \<Rightarrow> FieldValue" where
  "toFieldValue None = VUndefined"
| "toFieldValue (Some s) = VString s"

text \<open>In the state of the validation hook, \<open>isValid\<close> holds only when there are no errors.\<close>

definition validOnlyWithoutErrors :: "FormValidationHook \<Rightarrow> bool" where
  "validOnlyWithoutErrors h =
     (FormValidationState.isValid (validationState h) \<longrightarrow>
      FormValidationState.errors (validationState h) = [])"

text \<open>In the email hook, the only timer that can be pending is the one the hook refers to.\<close>

definition onlyRefTimer :: "EmailCheckHook \<Rightarrow> bool" where
  "onlyRefTimer h =
     (timers h = [] \<or> (\<exists>i due e. timers h = [(i, due, e)] \<and> debounceTimeoutRef h = Some i))"

text \<open>Example data.\<close>

definition sampleForm :: FormData where
  "sampleForm =
     \<lparr>name = js ''Ann Lee'', email = js ''ann@x.org'', subscribed_newsletter = True,
      message = None, company = None, phone = None\<rparr>"

definition otherForm :: FormData where
  "otherForm =
     \<lparr>name = js ''Bob Ray'', email = js ''bob@x.org'', subscribed_newsletter = False,
      message = None, company = None, phone = None\<rparr>"

definition sampleRow :: InterestSubmission where
  "sampleRow =
     \<lparr>name = js ''Ann Lee'', email = js ''ann@x.org'', subscribed_newsletter = True,
      message = None, company = None, phone = None,
      source = ''landing_page'', submitted_at = ''2024-01-01T00:00:00.000Z'', id' = ''1''\<rparr>"

definition duplicateStore :: "InterestSubmissionInsert \<Rightarrow> nat \<Rightarrow> Reply" where
  "duplicateStore payload k =
     Resolved None (Some (PostgrestError ''23505'' ''duplicate key value violates unique constraint''))"

definition defaultValidationOptions :: UseFormValidationOptions where
  "defaultValidationOptions =
     \<lparr>initialData = \<lparr>name = [], email = [], subscribed_newsletter = False,
                      message = None, company = None, phone = None\<rparr>,
      debounceMs = None, validateOnMount = None, validateOnBlur = None,
      validateOnChange = None\<rparr>"

definition taggedForm :: FormData where
  "taggedForm =
     \<lparr>name = js ''<b> ann'', email = js ''ann@x.org'', subscribed_newsletter = True,
      message = Some (js ''   ''), company = None, phone = None\<rparr>"

definition plainForm :: FormData where
  "plainForm =
     \<lparr>name = js ''  ann <i>marie</i> '' @ [Latin1 (CHR 0xE9), Latin1 (CHR 0xC9), Latin1 (CHR 0xA0)] @
               js ''  LEE '',
      email = js '' Ann@X.org '', subscribed_newsletter = True,
      message = Some (js ''hello   <b>world</b>''), company = Some [], phone = None\<rparr>"

definition endToEndForm :: FormData where
  "endToEndForm =
     \<lparr>name = js ''  john doe  '', email = js ''JOHN@EX.COM'', subscribed_newsletter = True,
      message = None, company = None, phone = None\<rparr>"

section \<open>Characters and strings\<close>

lemma char_eq_nat: "c = d \<longleftrightarrow> (of_char c :: nat) = of_char d"
  by simp

lemma of_char_upperLatin1:
  "(of_char (upperLatin1 c) :: nat) =
     (if (97 \<le> (of_char c :: nat) \<and> (of_char c :: nat) \<le> 122) \<or>
         (224 \<le> (of_char c :: nat) \<and> (of_char c :: nat) \<le> 254 \<and> (of_char c :: nat) \<noteq> 247)
      then of_char c - 32 else of_char c)"
  by (auto simp add: upperLatin1_def Let_def)

lemma of_char_lowerLatin1:
  "(of_char (lowerLatin1 c) :: nat) =
     (if (65 \<le> (of_char c :: nat) \<and> (of_char c :: nat) \<le> 90) \<or>
         (192 \<le> (of_char c :: nat) \<and> (of_char c :: nat) \<le> 222 \<and> (of_char c :: nat) \<noteq> 215)
      then of_char c + 32 else of_char c)"
  by (auto simp add: lowerLatin1_def Let_def)

lemma isSpace_of_char:
  "isSpace (Latin1 c) \<longleftrightarrow> (of_char c :: nat) \<in> {9, 10, 11, 12, 13, 32, 160}"
  by (simp add: char_eq_nat del: of_char_eq_iff)

lemma upperOne_Latin1:
  "upperOne (Latin1 c) =
     (if (of_char c :: nat) = 223 then Latin1 CHR ''S''
      else if (of_char c :: nat) = 181 then U039C
      else if (of_char c :: nat) = 255 then U0178
      else Latin1 (upperLatin1 c))"
  by (simp add: upperOne_def char_eq_nat del: of_char_eq_iff)

lemma Latin1_eq_nat: "Latin1 c = Latin1 d \<longleftrightarrow> (of_char c :: nat) = of_char d"
  by simp

lemma toUpperUnit_upperOne: "u \<noteq> sharpS \<Longrightarrow> toUpperUnit u = [upperOne u]"
  by (cases u) (simp_all add: upperOne_def sharpS_def)

lemma upperOne_simps [simp]:
  "upperOne U0178 = U0178" "upperOne U039C = U039C" "upperOne U03BC = U039C"
  by (simp_all add: upperOne_def)

lemma isSpace_upperOne [simp]: "isSpace (upperOne u) = isSpace u"
proof (cases u)
  case (Latin1 c)
  then show ?thesis
    unfolding upperOne_Latin1 Latin1
    by (auto simp add: isSpace_of_char of_char_upperLatin1 simp del: isSpace.simps(1))
qed simp_all

lemma isSpace_toLowerUnit [simp]: "isSpace (toLowerUnit u) = isSpace u"
proof (cases u)
  case (Latin1 c)
  then show ?thesis
    by (auto simp add: isSpace_of_char of_char_lowerLatin1 simp del: isSpace.simps(1))
qed simp_all

lemma upperOne_idem [simp]: "upperOne (upperOne u) = upperOne u"
proof (cases u)
  case (Latin1 c)
  then show ?thesis
    by (auto simp add: upperOne_Latin1 of_char_upperLatin1 Latin1_eq_nat simp del: CodeUnit.inject)
qed (simp_all add: upperOne_def)

lemma toLowerUnit_idem [simp]: "toLowerUnit (toLowerUnit u) = toLowerUnit u"
proof (cases u)
  case (Latin1 c)
  then show ?thesis
    by (auto simp add: of_char_lowerLatin1 Latin1_eq_nat simp del: CodeUnit.inject)
qed (simp_all add: lowerLatin1_def)

lemma upperOne_eq_special:
  "(of_char d :: nat) < 65 \<Longrightarrow> upperOne u = Latin1 d \<longleftrightarrow> u = Latin1 d"
proof (cases u)
  case (Latin1 c)
  assume "(of_char d :: nat) < 65"
  with Latin1 show ?thesis
    by (auto simp add: upperOne_Latin1 of_char_upperLatin1 Latin1_eq_nat simp del: CodeUnit.inject)
qed (simp_all add: upperOne_def)

lemma toLowerUnit_eq_special:
  "(of_char d :: nat) < 65 \<Longrightarrow> toLowerUnit u = Latin1 d \<longleftrightarrow> u = Latin1 d"
proof (cases u)
  case (Latin1 c)
  assume "(of_char d :: nat) < 65"
  with Latin1 show ?thesis
    by (auto simp add: of_char_lowerLatin1 Latin1_eq_nat simp del: CodeUnit.inject)
next
  case U0178
  assume "(of_char d :: nat) < 65"
  with U0178 show ?thesis
    by (auto simp add: Latin1_eq_nat simp del: CodeUnit.inject)
qed simp_all

lemmas case_eq_special [simp] =
  upperOne_eq_special [of "CHR '' ''", simplified]
  toLowerUnit_eq_special [of "CHR '' ''", simplified]
  upperOne_eq_special [of "CHR ''<''", simplified]
  toLowerUnit_eq_special [of "CHR ''<''", simplified]
  upperOne_eq_special [of "CHR ''>''", simplified]
  toLowerUnit_eq_special [of "CHR ''>''", simplified]

lemma upperOne_not_sharpS [simp]: "upperOne u \<noteq> sharpS"
proof (cases u)
  case (Latin1 c)
  then show ?thesis
    unfolding sharpS_def
    by (auto simp add: upperOne_Latin1 of_char_upperLatin1 Latin1_eq_nat simp del: CodeUnit.inject)
qed (simp_all add: upperOne_def sharpS_def)

lemma toLowerUnit_sharpS [simp]: "toLowerUnit u = sharpS \<longleftrightarrow> u = sharpS"
proof (cases u)
  case (Latin1 c)
  then show ?thesis
    unfolding sharpS_def
    by (auto simp add: of_char_lowerLatin1 Latin1_eq_nat simp del: CodeUnit.inject)
next
  case U0178
  then show ?thesis
    unfolding sharpS_def
    by (auto simp add: Latin1_eq_nat simp del: CodeUnit.inject)
qed (simp_all add: sharpS_def)

lemma sharpS_not_space [simp]: "sharpS \<noteq> Latin1 CHR '' ''"
  by (simp add: sharpS_def)

lemma sharpS_eq_case [simp]:
  "sharpS \<noteq> upperOne u"
  "(sharpS = toLowerUnit u) = (u = sharpS)"
  using upperOne_not_sharpS [of u] toLowerUnit_sharpS [of u]
  by (auto simp del: upperOne_not_sharpS toLowerUnit_sharpS)


subsection \<open>trim\<close>

lemma trimEnd_prefix: "\<exists>r. s = trimEnd s @ r"
proof -
  have "rev s = takeWhile isSpace (rev s) @ dropWhile isSpace (rev s)" by simp
  then have "s = rev (dropWhile isSpace (rev s)) @ rev (takeWhile isSpace (rev s))"
    by (metis rev_append rev_rev_ident)
  then show ?thesis unfolding trimEnd_def by blast
qed

lemma trimStart_suffix: "\<exists>r. s = r @ trimStart s"
  unfolding trimStart_def by (metis takeWhile_dropWhile_id)

lemma trimmed_trim: "trimmed (trim s)"
proof (cases "trim s = []")
  case True
  then show ?thesis by (simp add: trimmed_def)
next
  case False
  let ?t = "dropWhile isSpace s"
  from False have ne: "rev (dropWhile isSpace (rev ?t)) \<noteq> []"
    by (simp add: trim_def trimStart_def trimEnd_def)
  have tne: "?t \<noteq> []"
  proof
    assume "?t = []"
    with ne show False by simp
  qed
  have l: "\<not> isSpace (last (trim s))"
    using ne hd_dropWhile [of isSpace "rev ?t"]
    by (simp add: trim_def trimStart_def trimEnd_def last_rev)
  obtain r where r: "?t = trimEnd ?t @ r" using trimEnd_prefix by blast
  have "hd ?t = hd (trimEnd ?t)"
    using r ne by (metis hd_append2 trimEnd_def)
  moreover have "\<not> isSpace (hd ?t)" using tne hd_dropWhile by blast
  ultimately have "\<not> isSpace (hd (trim s))"
    by (simp add: trim_def trimStart_def)
  with l show ?thesis by (simp add: trimmed_def)
qed

lemma trim_trimmed: "trimmed s \<Longrightarrow> trim s = s"
proof (cases s)
  case Nil
  then show ?thesis by (simp add: trim_def trimStart_def trimEnd_def)
next
  case (Cons c cs)
  assume "trimmed s"
  with Cons have h: "\<not> isSpace c" and l: "\<not> isSpace (last s)" by (simp_all add: trimmed_def)
  from Cons have "rev s \<noteq> []" by simp
  then obtain d ds where rs: "rev s = d # ds" by (cases "rev s") auto
  then have "d = last s" using Cons by (metis hd_rev list.sel(1) list.discI)
  with l have "dropWhile isSpace (d # ds) = d # ds" by simp
  then have "dropWhile isSpace (rev s) = rev s" unfolding rs .
  with h Cons show ?thesis by (simp add: trim_def trimStart_def trimEnd_def)
qed

lemma trim_idem: "trim (trim s) = trim s"
  by (rule trim_trimmed) (rule trimmed_trim)

lemma trimmed_iff: "trimmed s \<longleftrightarrow> trim s = s"
  using trim_trimmed trimmed_trim by metis

lemma trim_map:
  assumes "\<And>c. isSpace (f c) = isSpace c"
  shows "trim (map f s) = map f (trim s)"
proof -
  have "isSpace \<circ> f = isSpace" using assms by (simp add: fun_eq_iff)
  then show ?thesis
    by (simp add: trim_def trimStart_def trimEnd_def dropWhile_map rev_map)
qed

subsection \<open>stripTags\<close>

lemma set_tl: "set (tl ys) \<subseteq> set ys"
  by (cases ys) auto

lemma set_tl_dropWhile: "set (tl (dropWhile P xs)) \<subseteq> set xs"
proof -
  have "set (tl (dropWhile P xs)) \<subseteq> set (dropWhile P xs)"
    by (rule set_tl)
  also have "\<dots> \<subseteq> set xs" by (auto dest: set_dropWhileD)
  finally show ?thesis .
qed

lemma set_stripTags: "set (stripTags s) \<subseteq> set s"
proof (induction s rule: stripTags.induct)
  case 1
  then show ?case by simp
next
  case (2 c cs)
  show ?case
  proof (cases "c = (Latin1 CHR ''<'') \<and> (Latin1 CHR ''>'') \<in> set cs")
    case True
    with 2 have "set (stripTags (c # cs)) \<subseteq> set (tl (dropWhile (\<lambda>x. x \<noteq> (Latin1 CHR ''>'')) cs))"
      by simp
    also have "\<dots> \<subseteq> set cs" by (rule set_tl_dropWhile)
    finally show ?thesis by auto
  next
    case False
    with 2 show ?thesis by auto
  qed
qed

lemma noTag_stripTags: "noTag (stripTags s)"
proof (induction s rule: stripTags.induct)
  case 1
  then show ?case by simp
next
  case (2 c cs)
  show ?case
  proof (cases "c = (Latin1 CHR ''<'') \<and> (Latin1 CHR ''>'') \<in> set cs")
    case True
    with 2 show ?thesis by simp
  next
    case False
    with 2 set_stripTags [of cs] show ?thesis by auto
  qed
qed

lemma stripTags_noTag: "noTag s \<Longrightarrow> stripTags s = s"
  by (induction s) auto

lemma stripTags_idem: "stripTags (stripTags s) = stripTags s"
  by (rule stripTags_noTag) (rule noTag_stripTags)

lemma noTag_append: "noTag (xs @ ys) \<Longrightarrow> noTag xs \<and> noTag ys"
  by (induction xs) auto

lemma noTag_trim: "noTag s \<Longrightarrow> noTag (trim s)"
proof -
  assume a: "noTag s"
  obtain r where "s = r @ trimStart s" using trimStart_suffix by blast
  with a have b: "noTag (trimStart s)" using noTag_append by metis
  obtain r' where "trimStart s = trimEnd (trimStart s) @ r'" using trimEnd_prefix by blast
  with b show ?thesis unfolding trim_def using noTag_append by metis
qed

subsection \<open>normalizeWhitespace\<close>

lemma set_normalizeWhitespace: "set (normalizeWhitespace s) \<subseteq> insert (Latin1 CHR '' '') (set s)"
proof (induction s rule: normalizeWhitespace.induct)
  case 1
  then show ?case by simp
next
  case (2 c cs)
  have "set (dropWhile isSpace cs) \<subseteq> set cs" by (auto dest: set_dropWhileD)
  with 2 show ?case by (cases "isSpace c") auto
qed

lemma noTag_dropWhile: "noTag s \<Longrightarrow> noTag (dropWhile P s)"
  by (metis noTag_append takeWhile_dropWhile_id)

lemma noTag_normalizeWhitespace: "noTag s \<Longrightarrow> noTag (normalizeWhitespace s)"
proof (induction s rule: normalizeWhitespace.induct)
  case 1
  then show ?case by simp
next
  case (2 c cs)
  show ?case
  proof (cases "isSpace c")
    case True
    with 2 show ?thesis by (simp add: noTag_dropWhile)
  next
    case False
    with 2 set_normalizeWhitespace [of cs] show ?thesis by auto
  qed
qed

lemma normalizeWhitespace_hd:
  "s \<noteq> [] \<Longrightarrow> \<not> isSpace (hd s) \<Longrightarrow> normalizeWhitespace s \<noteq> [] \<and> hd (normalizeWhitespace s) = hd s"
  by (cases s) auto

lemma normalizeWhitespace_Nil_iff [simp]: "normalizeWhitespace s = [] \<longleftrightarrow> s = []"
  by (cases s) auto

lemma normalized_normalizeWhitespace: "normalized (normalizeWhitespace s)"
proof (induction s rule: normalizeWhitespace.induct)
  case 1
  then show ?case by simp
next
  case (2 c cs)
  show ?case
  proof (cases "isSpace c")
    case True
    let ?d = "dropWhile isSpace cs"
    have "?d = [] \<or> \<not> isSpace (hd (normalizeWhitespace ?d))"
    proof (cases "?d = []")
      case True
      then show ?thesis by simp
    next
      case False
      then have "\<not> isSpace (hd ?d)" by (rule hd_dropWhile)
      with False show ?thesis using normalizeWhitespace_hd by simp
    qed
    with True 2 show ?thesis by auto
  next
    case False
    with 2 show ?thesis by simp
  qed
qed

lemma normalizeWhitespace_normalized: "normalized s \<Longrightarrow> normalizeWhitespace s = s"
proof (induction s)
  case Nil
  then show ?case by simp
next
  case (Cons c cs)
  show ?case
  proof (cases "isSpace c")
    case True
    with Cons.prems have c: "c = (Latin1 CHR '' '')" and n: "cs = [] \<or> \<not> isSpace (hd cs)" by simp_all
    from n have "dropWhile isSpace cs = cs" by (cases cs) auto
    with True c Cons show ?thesis by simp
  next
    case False
    with Cons show ?thesis by simp
  qed
qed

lemma last_dropWhile: "dropWhile P xs \<noteq> [] \<Longrightarrow> last (dropWhile P xs) = last xs"
  by (metis last_appendR takeWhile_dropWhile_id)

lemma normalizeWhitespace_last:
  "s \<noteq> [] \<Longrightarrow> \<not> isSpace (last s) \<Longrightarrow> last (normalizeWhitespace s) = last s"
proof (induction s rule: normalizeWhitespace.induct)
  case 1
  then show ?case by simp
next
  case (2 c cs)
  show ?case
  proof (cases "cs = []")
    case True
    with 2 show ?thesis by simp
  next
    case False
    with 2 have l: "\<not> isSpace (last cs)" by simp
    show ?thesis
    proof (cases "isSpace c")
      case True
      let ?d = "dropWhile isSpace cs"
      have d: "?d \<noteq> []"
      proof
        assume "?d = []"
        then have "\<forall>x\<in>set cs. isSpace x" by (simp add: dropWhile_eq_Nil_conv)
        with False l show False by simp
      qed
      then have ld: "last ?d = last cs" by (rule last_dropWhile)
      with 2 True d l have "last (normalizeWhitespace ?d) = last ?d" by simp
      with True d ld False show ?thesis by auto
    next
      case False
      with 2 \<open>cs \<noteq> []\<close> l show ?thesis by simp
    qed
  qed
qed

lemma trimmed_normalizeWhitespace: "trimmed s \<Longrightarrow> trimmed (normalizeWhitespace s)"
proof (cases "s = []")
  case True
  then show ?thesis by (simp add: trimmed_def)
next
  case False
  assume "trimmed s"
  with False have h: "\<not> isSpace (hd s)" and l: "\<not> isSpace (last s)" by (simp_all add: trimmed_def)
  from False h have "hd (normalizeWhitespace s) = hd s" using normalizeWhitespace_hd by simp
  moreover from False l have "last (normalizeWhitespace s) = last s" by (rule normalizeWhitespace_last)
  ultimately show ?thesis using h l by (simp add: trimmed_def)
qed

subsection \<open>Title case\<close>

lemma split_not_Nil [simp]: "split sep s \<noteq> []"
  by (induction s) (auto split: list.splits)

lemma join_Cons_word: "join sep ((x # w) # ws) = x # join sep (w # ws)"
  by (cases ws) auto

lemma join_Nil_word: "ws \<noteq> [] \<Longrightarrow> join sep ([] # ws) = sep # join sep ws"
  by (cases ws) auto

lemma capitalizeWord_Cons:
  "c \<noteq> sharpS \<Longrightarrow> capitalizeWord (c # w) = upperOne c # toLowerCase w"
  by (simp add: capitalizeWord_def toUpperCase_def toUpperUnit_upperOne)

lemma capitalizeWord_Nil: "capitalizeWord [] = []"
  by (simp add: capitalizeWord_def toUpperCase_def toLowerCase_def)

lemma join_titleCase:
  "sharpS \<notin> set s \<Longrightarrow>
   join (Latin1 CHR '' '') (map capitalizeWord (split (Latin1 CHR '' '') s)) = titleCase True s \<and>
   (\<forall>w ws. split (Latin1 CHR '' '') s = w # ws \<longrightarrow>
      join (Latin1 CHR '' '') (toLowerCase w # map capitalizeWord ws) = titleCase False s)"
proof (induction s)
  case Nil
  then show ?case by (simp add: capitalizeWord_Nil toLowerCase_def)
next
  case (Cons c cs)
  from Cons.prems have ns: "c \<noteq> sharpS" and nss: "sharpS \<notin> set cs" by auto
  note IH = Cons.IH [OF nss]
  obtain w ws where sp: "split (Latin1 CHR '' '') cs = w # ws"
    using split_not_Nil [of "(Latin1 CHR '' '')" cs] by (cases "split (Latin1 CHR '' '') cs") auto
  show ?case
  proof (cases "c = (Latin1 CHR '' '')")
    case True
    with IH sp show ?thesis
      by (simp add: capitalizeWord_Nil toLowerCase_def join_Nil_word)
  next
    case False
    from IH sp have b: "join (Latin1 CHR '' '') (toLowerCase w # map capitalizeWord ws) = titleCase False cs"
      by simp
    from False sp b ns show ?thesis
      by (simp add: capitalizeWord_Cons join_Cons_word toLowerCase_def)
  qed
qed

lemma set_trim: "set (trim s) \<subseteq> set s"
proof -
  have "set (trim s) \<subseteq> set (dropWhile isSpace s)"
    unfolding trim_def trimStart_def trimEnd_def by (auto dest: set_dropWhileD)
  then show ?thesis by (auto dest: set_dropWhileD)
qed

lemma set_sanitizeInput: "set (sanitizeInput s) \<subseteq> insert (Latin1 CHR '' '') (set s)"
proof -
  have "set (normalizeWhitespace (stripTags (trim s))) \<subseteq> insert (Latin1 CHR '' '') (set (stripTags (trim s)))"
    by (rule set_normalizeWhitespace)
  moreover have "set (stripTags (trim s)) \<subseteq> set (trim s)" by (rule set_stripTags)
  moreover have "set (trim s) \<subseteq> set s" by (rule set_trim)
  ultimately show ?thesis by (auto simp add: sanitizeInput_def)
qed

lemma sharpS_sanitizeInput: "sharpS \<notin> set s \<Longrightarrow> sharpS \<notin> set (sanitizeInput s)"
  using set_sanitizeInput [of s] by auto

lemma sanitizeName_titleCase:
  "sharpS \<notin> set n \<Longrightarrow>
   sanitizeName n = (if n = [] then [] else titleCase True (sanitizeInput n))"
  by (simp add: sanitizeName_def join_titleCase sharpS_sanitizeInput)

lemma sharpS_titleCase: "sharpS \<notin> set s \<Longrightarrow> sharpS \<notin> set (titleCase b s)"
  by (induction s arbitrary: b) auto

lemma titleCase_Nil_iff [simp]: "titleCase b s = [] \<longleftrightarrow> s = []"
  by (cases s) auto

lemma isSpace_hd_titleCase: "s \<noteq> [] \<Longrightarrow> isSpace (hd (titleCase b s)) = isSpace (hd s)"
  by (cases s) auto

lemma isSpace_last_titleCase: "s \<noteq> [] \<Longrightarrow> isSpace (last (titleCase b s)) = isSpace (last s)"
  by (induction s arbitrary: b) auto

lemma trimmed_titleCase: "trimmed s \<Longrightarrow> trimmed (titleCase b s)"
  by (auto simp add: trimmed_def isSpace_hd_titleCase isSpace_last_titleCase)

lemma gt_eq_case [simp]:
  "((Latin1 CHR ''>'') = upperOne c) = (c = (Latin1 CHR ''>''))"
  "((Latin1 CHR ''>'') = toLowerUnit c) = (c = (Latin1 CHR ''>''))"
  using case_eq_special(5,6) [of c] by (auto simp del: case_eq_special)

lemma gt_in_titleCase: "(Latin1 CHR ''>'') \<in> set (titleCase b s) \<longleftrightarrow> (Latin1 CHR ''>'') \<in> set s"
  by (induction s arbitrary: b) auto

lemma noTag_titleCase: "noTag s \<Longrightarrow> noTag (titleCase b s)"
  by (induction s arbitrary: b) (auto simp add: gt_in_titleCase)

lemma normalized_titleCase: "normalized s \<Longrightarrow> normalized (titleCase b s)"
proof (induction s arbitrary: b)
  case Nil
  then show ?case by simp
next
  case (Cons c cs)
  from Cons.prems have n: "normalized cs" by simp
  have hd: "titleCase b' cs = [] \<or> isSpace (hd (titleCase b' cs)) = isSpace (hd cs)" for b'
    using isSpace_hd_titleCase [of cs b'] by (cases "cs = []") simp_all
  show ?case
  proof (cases "c = (Latin1 CHR '' '')")
    case True
    with Cons.prems have "cs = [] \<or> \<not> isSpace (hd cs)" by simp
    with hd [of True] have "titleCase True cs = [] \<or> \<not> isSpace (hd (titleCase True cs))"
      by auto
    with True Cons.IH [OF n, of True] show ?thesis by simp
  next
    case False
    with Cons.prems have "\<not> isSpace c" by auto
    with False Cons.IH [OF n, of False] show ?thesis by simp
  qed
qed

lemma titleCase_idem: "titleCase b (titleCase b s) = titleCase b s"
proof (induction s arbitrary: b)
  case Nil
  then show ?case by simp
next
  case (Cons c cs)
  show ?case
  proof (cases "c = (Latin1 CHR '' '')")
    case True
    with Cons [of True] show ?thesis by simp
  next
    case False
    with Cons [of False] show ?thesis by (cases b) simp_all
  qed
qed

subsection \<open>Idempotence\<close>

lemma sanitizeEmail_idem: "sanitizeEmail (sanitizeEmail e) = sanitizeEmail e"
proof -
  have "trim (map toLowerUnit (trim e)) = map toLowerUnit (trim e)"
    by (simp add: trim_map trim_idem)
  then show ?thesis by (simp add: sanitizeEmail_def toLowerCase_def)
qed

lemma sanitizeInput_fixed:
  assumes "trimmed s" "noTag s" "normalized s"
  shows "sanitizeInput s = s"
  using assms
  by (simp add: sanitizeInput_def trim_trimmed stripTags_noTag normalizeWhitespace_normalized)

lemma sanitizeInput_shape:
  assumes "trim (stripTags (trim s)) = stripTags (trim s)"
  shows "trimmed (sanitizeInput s) \<and> noTag (sanitizeInput s) \<and> normalized (sanitizeInput s)"
proof (cases "s = []")
  case True
  then show ?thesis by (simp add: sanitizeInput_def trimmed_def)
next
  case False
  from assms have "trimmed (stripTags (trim s))" by (simp add: trimmed_iff)
  then have "trimmed (normalizeWhitespace (stripTags (trim s)))"
    by (rule trimmed_normalizeWhitespace)
  moreover have "noTag (normalizeWhitespace (stripTags (trim s)))"
    by (rule noTag_normalizeWhitespace) (rule noTag_stripTags)
  moreover have "normalized (normalizeWhitespace (stripTags (trim s)))"
    by (rule normalized_normalizeWhitespace)
  ultimately show ?thesis using False by (simp add: sanitizeInput_def)
qed

lemma sanitizeInput_idem:
  assumes "trim (stripTags (trim s)) = stripTags (trim s)"
  shows "sanitizeInput (sanitizeInput s) = sanitizeInput s"
  using sanitizeInput_shape [OF assms] by (simp add: sanitizeInput_fixed)

lemma sanitizeName_idem:
  assumes "trim (stripTags (trim n)) = stripTags (trim n)" and ns: "sharpS \<notin> set n"
  shows "sanitizeName (sanitizeName n) = sanitizeName n"
proof (cases "n = []")
  case True
  then show ?thesis by (simp add: sanitizeName_def)
next
  case False
  let ?t = "titleCase True (sanitizeInput n)"
  from sanitizeInput_shape [OF assms(1)]
  have "trimmed ?t" "noTag ?t" "normalized ?t"
    by (simp_all add: trimmed_titleCase noTag_titleCase normalized_titleCase)
  then have fixed: "sanitizeInput ?t = ?t" by (rule sanitizeInput_fixed)
  from ns have nt: "sharpS \<notin> set ?t" by (simp add: sharpS_titleCase sharpS_sanitizeInput)
  from False ns have first: "sanitizeName n = ?t" by (simp add: sanitizeName_titleCase)
  from False have "?t \<noteq> [] \<or> sanitizeName ?t = ?t" by (simp add: sanitizeName_def)
  then have "sanitizeName ?t = ?t"
  proof
    assume "?t \<noteq> []"
    with nt fixed show ?thesis by (simp add: sanitizeName_titleCase titleCase_idem)
  qed
  with first show ?thesis by simp
qed

lemma sanitizeOptional_idem:
  assumes "case v of None \<Rightarrow> True
           | Some s \<Rightarrow> s = [] \<or> (stripTags (trim s) \<noteq> [] \<and> trim (stripTags (trim s)) = stripTags (trim s))"
  shows "sanitizeOptional (sanitizeOptional v) = sanitizeOptional v"
proof (cases v)
  case None
  then show ?thesis by (simp add: sanitizeOptional_def)
next
  case (Some s)
  show ?thesis
  proof (cases "s = []")
    case True
    with Some show ?thesis by (simp add: sanitizeOptional_def)
  next
    case False
    with assms Some have ne: "stripTags (trim s) \<noteq> []"
      and t: "trim (stripTags (trim s)) = stripTags (trim s)" by simp_all
    from ne False have "sanitizeInput s \<noteq> []" by (simp add: sanitizeInput_def)
    with Some False sanitizeInput_idem [OF t] show ?thesis by (simp add: sanitizeOptional_def)
  qed
qed

subsection \<open>White space only, one tag only\<close>

lemma dropWhile_all: "\<forall>x\<in>set s. P x \<Longrightarrow> dropWhile P s = []"
  by simp

lemma trim_all_space: "list_all isSpace s \<Longrightarrow> trim s = []"
  by (simp add: trim_def trimStart_def trimEnd_def list_all_iff dropWhile_all)

lemma sanitizeInput_all_space: "list_all isSpace s \<Longrightarrow> sanitizeInput s = []"
  by (simp add: sanitizeInput_def trim_all_space)

lemma isSpace_lt: "\<not> isSpace (Latin1 CHR ''<'')" and isSpace_gt: "\<not> isSpace (Latin1 CHR ''>'')"
  by simp_all

lemma trim_tag: "trim ((Latin1 CHR ''<'') # t @ [Latin1 CHR ''>'']) = (Latin1 CHR ''<'') # t @ [Latin1 CHR ''>'']"
  by (simp add: trim_def trimStart_def trimEnd_def)

lemma stripTags_tag: "(Latin1 CHR ''>'') \<notin> set t \<Longrightarrow> stripTags ((Latin1 CHR ''<'') # t @ [Latin1 CHR ''>'']) = []"
  by (simp add: dropWhile_append)

lemma sanitizeInput_tag: "(Latin1 CHR ''>'') \<notin> set t \<Longrightarrow> sanitizeInput ((Latin1 CHR ''<'') # t @ [Latin1 CHR ''>'']) = []"
  by (simp add: sanitizeInput_def trim_tag stripTags_tag del: stripTags.simps)

section \<open>The retry loop\<close>

lemma withRetry_loop_calls_ge:
  "attempt \<le> maxAttempts config \<Longrightarrow> attempt \<le> calls (withRetry_loop fn config attempt lastError waited)"
proof (induction fn config attempt lastError waited rule: withRetry_loop.induct)
  case (1 fn config attempt lastError waited)
  show ?case
  proof (cases "fn attempt")
    case (Inr v)
    with 1 show ?thesis by (simp add: withRetry_loop.simps [of fn config attempt])
  next
    case (Inl err)
    show ?thesis
    proof (cases "attempt = maxAttempts config")
      case True
      with Inl show ?thesis by (simp add: withRetry_loop.simps [of fn config "maxAttempts config"])
    next
      case False
      with 1 Inl have "attempt + 1 \<le> calls (withRetry_loop fn config (attempt + 1) (Some err)
          (waited @ [delayMs config * backoffMultiplier config ^ (attempt - 1)]))"
        by simp
      with 1 Inl False show ?thesis by (simp add: withRetry_loop.simps [of fn config attempt])
    qed
  qed
qed

lemma withRetry_loop_calls_le:
  "attempt \<le> maxAttempts config + 1 \<Longrightarrow>
   calls (withRetry_loop fn config attempt lastError waited) \<le> maxAttempts config"
proof (induction fn config attempt lastError waited rule: withRetry_loop.induct)
  case (1 fn config attempt lastError waited)
  show ?case
  proof (cases "attempt \<le> maxAttempts config")
    case le: True
    show ?thesis
    proof (cases "fn attempt")
      case (Inr v)
      with le show ?thesis by (simp add: withRetry_loop.simps [of fn config attempt])
    next
      case (Inl err)
      show ?thesis
      proof (cases "attempt = maxAttempts config")
        case True
        with Inl show ?thesis by (simp add: withRetry_loop.simps [of fn config "maxAttempts config"])
      next
        case False
        with 1 le Inl show ?thesis by (simp add: withRetry_loop.simps [of fn config attempt])
      qed
    qed
  next
    case False
    with 1 show ?thesis by (simp add: withRetry_loop.simps [of fn config attempt])
  qed
qed

lemma withRetry_loop_delays:
  "delays (withRetry_loop fn config attempt lastError waited) =
     waited @ map (\<lambda>k. delayMs config * backoffMultiplier config ^ (k - 1))
                [attempt ..< calls (withRetry_loop fn config attempt lastError waited)]"
proof (induction fn config attempt lastError waited rule: withRetry_loop.induct)
  case (1 fn config attempt lastError waited)
  show ?case
  proof (cases "attempt \<le> maxAttempts config")
    case le: True
    show ?thesis
    proof (cases "fn attempt")
      case (Inr v)
      with le show ?thesis by (simp add: withRetry_loop.simps [of fn config attempt])
    next
      case (Inl err)
      show ?thesis
      proof (cases "attempt = maxAttempts config")
        case True
        with Inl show ?thesis by (simp add: withRetry_loop.simps [of fn config "maxAttempts config"])
      next
        case False
        let ?w = "waited @ [delayMs config * backoffMultiplier config ^ (attempt - 1)]"
        let ?r = "withRetry_loop fn config (attempt + 1) (Some err) ?w"
        from le False have "attempt + 1 \<le> maxAttempts config" by simp
        then have ge: "attempt + 1 \<le> calls ?r" by (rule withRetry_loop_calls_ge)
        then have u: "[attempt ..< calls ?r] = attempt # [attempt + 1 ..< calls ?r]"
          by (simp add: upt_conv_Cons)
        from 1 le Inl False
        have "delays ?r = ?w @ map (\<lambda>k. delayMs config * backoffMultiplier config ^ (k - 1))
                [attempt + 1 ..< calls ?r]" by simp
        moreover from le Inl False
        have "withRetry_loop fn config attempt lastError waited = ?r"
          by (simp add: withRetry_loop.simps [of fn config attempt])
        ultimately show ?thesis using u by simp
      qed
    qed
  next
    case False
    then show ?thesis by (simp add: withRetry_loop.simps [of fn config attempt])
  qed
qed

lemma withRetry_loop_success:
  "attempt \<le> k \<Longrightarrow> k \<le> maxAttempts config \<Longrightarrow> fn k = Inr v \<Longrightarrow>
   (\<forall>j. attempt \<le> j \<and> j < k \<longrightarrow> isl (fn j)) \<Longrightarrow>
   outcome (withRetry_loop fn config attempt lastError waited) = Inr v \<and>
   calls (withRetry_loop fn config attempt lastError waited) = k"
proof (induction fn config attempt lastError waited rule: withRetry_loop.induct)
  case (1 fn config attempt lastError waited)
  show ?case
  proof (cases "attempt = k")
    case True
    with 1 show ?thesis by (simp add: withRetry_loop.simps [of fn config k])
  next
    case False
    with 1 have lt: "attempt < k" by simp
    with 1 have "isl (fn attempt)" by simp
    then obtain err where e: "fn attempt = Inl err" by (cases "fn attempt") auto
    from lt 1 have ne: "attempt \<noteq> maxAttempts config" and le: "attempt \<le> maxAttempts config"
      by simp_all
    from 1 e ne le lt show ?thesis by (simp add: withRetry_loop.simps [of fn config attempt])
  qed
qed

lemma withRetry_loop_exhausted:
  "attempt \<le> maxAttempts config \<Longrightarrow> (\<forall>j. attempt \<le> j \<and> j \<le> maxAttempts config \<longrightarrow> isl (fn j)) \<Longrightarrow>
   outcome (withRetry_loop fn config attempt lastError waited) = Inl (Some (projl (fn (maxAttempts config)))) \<and>
   calls (withRetry_loop fn config attempt lastError waited) = maxAttempts config"
proof (induction fn config attempt lastError waited rule: withRetry_loop.induct)
  case (1 fn config attempt lastError waited)
  from 1 have "isl (fn attempt)" by simp
  then obtain err where e: "fn attempt = Inl err" by (cases "fn attempt") auto
  show ?case
  proof (cases "attempt = maxAttempts config")
    case True
    with e show ?thesis by (simp add: withRetry_loop.simps [of fn config "maxAttempts config"])
  next
    case False
    with 1 e show ?thesis by (simp add: withRetry_loop.simps [of fn config attempt])
  qed
qed

section \<open>Timers and the hooks\<close>

subsection \<open>The email hook holds at most one timer\<close>

lemma timers_clearRef_onlyRefTimer:
  "onlyRefTimer h \<Longrightarrow> timers (clearRef (debounceTimeoutRef h) h) = []"
  by (auto simp add: onlyRefTimer_def clearRef_def clearTimeout_def split: option.splits)

lemma checkEmail_debounced:
  "onlyRefTimer h \<Longrightarrow>
   timers (checkEmail options e False h) = [(nextTimerId h, now h + debounceDelay options, e)] \<and>
   debounceTimeoutRef (checkEmail options e False h) = Some (nextTimerId h) \<and>
   now (checkEmail options e False h) = now h \<and>
   requests (checkEmail options e False h) = requests h"
  using timers_clearRef_onlyRefTimer [of h]
  by (simp add: checkEmail_def setTimeout_def Let_def)
    (simp add: clearRef_def clearTimeout_def split: option.splits)

lemma performCheck_loop [simp]:
  "timers (performCheck e h) = timers h" "now (performCheck e h) = now h"
  "nextTimerId (performCheck e h) = nextTimerId h"
  by (simp_all add: performCheck_def)

lemma checkEmail_immediate:
  "onlyRefTimer h \<Longrightarrow> timers (checkEmail options e True h) = []"
  using timers_clearRef_onlyRefTimer [of h]
  by (simp add: checkEmail_def Let_def)

lemma onlyRefTimer_checkEmail: "onlyRefTimer h \<Longrightarrow> onlyRefTimer (checkEmail options e immediate h)"
  using checkEmail_debounced [of h options e] checkEmail_immediate [of h options e]
  by (cases immediate) (simp_all add: onlyRefTimer_def)

lemma onlyRefTimer_checkSettled: "onlyRefTimer h \<Longrightarrow> onlyRefTimer (checkSettled r h)"
  by (simp add: onlyRefTimer_def checkSettled_def split: Settled.splits)

lemma onlyRefTimer_resetEmailCheck: "onlyRefTimer h \<Longrightarrow> onlyRefTimer (resetEmailCheck h)"
  by (simp add: onlyRefTimer_def resetEmailCheck_def)

lemma advance_no_due:
  "\<forall>u\<in>set (timers l). t < fst (snd u) \<Longrightarrow> advance run t l = l\<lparr>now := max (now l) t\<rparr>"
proof -
  assume "\<forall>u\<in>set (timers l). t < fst (snd u)"
  then have "filter (\<lambda>u. fst (snd u) \<le> t) (timers l) = []"
    by (auto simp add: filter_empty_conv)
  then show ?thesis by (simp add: advance_def Let_def)
qed

lemma advance_single:
  "timers l = [(i, due, p)] \<Longrightarrow> due \<le> t \<Longrightarrow>
   advance run t l =
     (let l' = run p ((clearTimeout i l)\<lparr>now := max (now l) due\<rparr>) in l'\<lparr>now := max (now l') t\<rparr>)"
  by (simp add: advance_def Let_def)

lemma advanceEmailCheck_early:
  "\<forall>u\<in>set (timers h). t < fst (snd u) \<Longrightarrow>
   requests (advanceEmailCheck t h) = requests h \<and> timers (advanceEmailCheck t h) = timers h \<and>
   debounceTimeoutRef (advanceEmailCheck t h) = debounceTimeoutRef h"
  by (simp add: advanceEmailCheck_def advance_no_due)

lemma advanceEmailCheck_due:
  "timers h = [(i, due, e)] \<Longrightarrow> due \<le> t \<Longrightarrow>
   requests (advanceEmailCheck t h) =
     requests h @ (if e = [] \<or> trim e = [] then [] else [(max (now h) due, toLowerCase (trim e))]) \<and>
   timers (advanceEmailCheck t h) = []"
  by (simp add: advanceEmailCheck_def advance_single Let_def performCheck_def clearTimeout_def)

lemma onlyRefTimer_advanceEmailCheck: "onlyRefTimer h \<Longrightarrow> onlyRefTimer (advanceEmailCheck t h)"
proof -
  assume a: "onlyRefTimer h"
  show ?thesis
  proof (cases "\<forall>u\<in>set (timers h). t < fst (snd u)")
    case True
    with a advanceEmailCheck_early [of h t] show ?thesis by (simp add: onlyRefTimer_def)
  next
    case False
    with a obtain i due e where t: "timers h = [(i, due, e)]" and d: "due \<le> t"
      by (auto simp add: onlyRefTimer_def)
    from advanceEmailCheck_due [OF t d] show ?thesis by (simp add: onlyRefTimer_def)
  qed
qed

lemma onlyRefTimer_applyEmailCheckOps:
  "onlyRefTimer h \<Longrightarrow> onlyRefTimer (applyEmailCheckOps options ops h)"
  unfolding applyEmailCheckOps_def
proof (induction ops arbitrary: h)
  case Nil
  then show ?case by simp
next
  case (Cons ev ops)
  from Cons.prems have "onlyRefTimer (applyEmailCheckOp options ev h)"
    by (cases ev)
      (simp_all add: onlyRefTimer_checkEmail onlyRefTimer_checkSettled
        onlyRefTimer_resetEmailCheck onlyRefTimer_advanceEmailCheck)
  then show ?case using Cons.IH by simp
qed

lemma onlyRefTimer_useEmailCheck: "onlyRefTimer useEmailCheck"
  by (simp add: onlyRefTimer_def useEmailCheck_def)

subsection \<open>The validation hook is valid only without errors\<close>

lemma validateFormData_isValid_iff:
  "ValidationResult.isValid (validateFormData d) \<longleftrightarrow> ValidationResult.errors (validateFormData d) = []"
  by (simp add: validateFormData_def Let_def)

lemma validationState_clearRef [simp]: "validationState (clearRef r h) = validationState h"
  by (simp add: clearRef_def clearTimeout_def split: option.splits)

lemma inv_validateSingleField: "validOnlyWithoutErrors (validateSingleField f v h)"
  by (simp add: validOnlyWithoutErrors_def validateSingleField_def Let_def)

lemma inv_validateForm: "validOnlyWithoutErrors (validateForm d h)"
  by (simp add: validOnlyWithoutErrors_def validateForm_def validateAndSanitizeFormData_def Let_def
      validateFormData_isValid_iff)

lemma inv_debouncedValidate:
  "validOnlyWithoutErrors h \<Longrightarrow> validOnlyWithoutErrors (debouncedValidate options d h)"
  by (simp add: validOnlyWithoutErrors_def debouncedValidate_def setTimeout_def Let_def
      split: prod.splits)

lemma inv_updateField:
  "validOnlyWithoutErrors h \<Longrightarrow> validOnlyWithoutErrors (updateField options f v sv h)"
  by (auto simp add: updateField_def Let_def inv_validateSingleField intro!: inv_debouncedValidate)
    (simp_all add: validOnlyWithoutErrors_def)

lemma inv_handleFieldBlur:
  "validOnlyWithoutErrors h \<Longrightarrow> validOnlyWithoutErrors (handleFieldBlur options f h)"
  by (simp add: handleFieldBlur_def inv_validateSingleField split: FieldValue.splits)

lemma inv_resetForm: "validOnlyWithoutErrors (resetForm options h)"
  by (simp add: validOnlyWithoutErrors_def resetForm_def)

lemma inv_setFormDataAndValidate:
  "validOnlyWithoutErrors h \<Longrightarrow> validOnlyWithoutErrors (setFormDataAndValidate options d h)"
  by (auto simp add: setFormDataAndValidate_def Let_def inv_validateForm intro!: inv_debouncedValidate)
    (simp_all add: validOnlyWithoutErrors_def)

lemma inv_clearFieldError: "validOnlyWithoutErrors (clearFieldError f h)"
  by (simp add: validOnlyWithoutErrors_def clearFieldError_def Let_def)

lemma inv_clearAllErrors: "validOnlyWithoutErrors (clearAllErrors h)"
  by (simp add: validOnlyWithoutErrors_def clearAllErrors_def)

lemma inv_validateOnMountEffect:
  "validOnlyWithoutErrors h \<Longrightarrow> validOnlyWithoutErrors (validateOnMountEffect options h)"
  by (simp add: validateOnMountEffect_def inv_validateForm)

lemma inv_advance:
  "validOnlyWithoutErrors h \<Longrightarrow> validOnlyWithoutErrors (advanceFormValidation t h)"
proof -
  assume a: "validOnlyWithoutErrors h"
  have "validOnlyWithoutErrors (fold (\<lambda>u h. validateForm (snd (snd u))
            ((clearTimeout (fst u) h)\<lparr>now := max (now h) (fst (snd u))\<rparr>)) us h)" for us
    using a by (induction us arbitrary: h) (simp_all add: inv_validateForm)
  then show ?thesis
    by (simp add: advanceFormValidation_def advance_def Let_def validOnlyWithoutErrors_def)
qed

lemma inv_applyOp:
  "validOnlyWithoutErrors h \<Longrightarrow> validOnlyWithoutErrors (applyOp options ev h)"
  by (cases ev)
    (simp_all add: inv_updateField inv_handleFieldBlur inv_validateForm inv_validateSingleField
      inv_setFormDataAndValidate inv_clearFieldError inv_clearAllErrors inv_resetForm
      inv_validateOnMountEffect inv_advance)

lemma inv_applyOps:
  "validOnlyWithoutErrors h \<Longrightarrow> validOnlyWithoutErrors (applyOps options evs h)"
  unfolding applyOps_def by (induction evs arbitrary: h) (simp_all add: inv_applyOp)

lemma inv_init: "validOnlyWithoutErrors (useFormValidation options)"
  by (simp add: validOnlyWithoutErrors_def useFormValidation_def)

section \<open>Claim C1: a duplicate email and the retry loop\<close>

text \<open>
  Claim C1, as amended. The claim states that a unique-violation answer of the store ends
  \<open>submitInterestForm\<close> after one network attempt, without a retry. \<open>withRetry\<close> retries
  every failure alike: when the store answers every insert of a configured client with
  the unique-violation code 23505, \<open>submitInterestForm\<close> makes all three attempts of the
  default configuration, waits 1000 ms and 2000 ms between them, and then returns
  \<open>success = false\<close> with the message \<open>This email is already registered\<close>.
\<close>

theorem submitInterestForm_duplicate:
  assumes "\<forall>payload k. 1 \<le> k \<and> k \<le> 3 \<longrightarrow>
             (\<exists>d m. remote payload k = Resolved d (Some (PostgrestError ''23505'' m)))"
  shows "submitInterestForm True nowMs nowIso remote fd src =
           \<lparr>settled = Fulfilled \<lparr>DatabaseResult.data = None,
                                  DatabaseResult.error = Some (Error ''This email is already registered''),
                                  DatabaseResult.success = False\<rparr>,
            networkCalls = 3, waits = [1000, 2000]\<rparr>"
proof -
  let ?p = "\<lparr>name = name fd, email = email fd,
             subscribed_newsletter = subscribed_newsletter fd,
             message = FormData.message fd, company = company fd,
             phone = phone fd, source = src, submitted_at = nowIso\<rparr>"
  let ?fn = "\<lambda>k. insertRequest (remote ?p k)"
  let ?run = "withRetry ?fn DEFAULT_RETRY_CONFIG"
  have fails: "\<exists>m. ?fn k = Inl (PostgrestError ''23505'' m)" if "1 \<le> k" "k \<le> 3" for k
  proof -
    from assms that obtain d m where "remote ?p k = Resolved d (Some (PostgrestError ''23505'' m))"
      by blast
    then show ?thesis by (simp add: insertRequest_def)
  qed
  have all: "\<forall>j. 1 \<le> j \<and> j \<le> maxAttempts DEFAULT_RETRY_CONFIG \<longrightarrow> isl (?fn j)"
  proof (intro allI impI)
    fix j assume "1 \<le> j \<and> j \<le> maxAttempts DEFAULT_RETRY_CONFIG"
    then have "1 \<le> j" "j \<le> 3" by (simp_all add: DEFAULT_RETRY_CONFIG_def)
    from fails [OF this] obtain m where "?fn j = Inl (PostgrestError ''23505'' m)" by blast
    then show "isl (?fn j)" by simp
  qed
  have one: "1 \<le> maxAttempts DEFAULT_RETRY_CONFIG" by (simp add: DEFAULT_RETRY_CONFIG_def)
  from withRetry_loop_exhausted [OF one all, of None "[]"]
  have o: "outcome ?run = Inl (Some (projl (?fn 3)))" and c: "calls ?run = 3"
    by (simp_all add: withRetry_def DEFAULT_RETRY_CONFIG_def)
  from fails [of 3] obtain m where "?fn 3 = Inl (PostgrestError ''23505'' m)" by auto
  with o have o': "outcome ?run = Inl (Some (PostgrestError ''23505'' m))" by simp
  have "delays ?run = map (\<lambda>k. delayMs DEFAULT_RETRY_CONFIG * backoffMultiplier DEFAULT_RETRY_CONFIG ^ (k - 1))
      [1 ..< calls ?run]"
    using withRetry_loop_delays [of ?fn DEFAULT_RETRY_CONFIG 1 None "[]"] by (simp add: withRetry_def)
  also have "\<dots> = map (\<lambda>k. 1000 * 2 ^ (k - 1)) [1 ..< 3]"
    by (simp only: c) (simp add: DEFAULT_RETRY_CONFIG_def)
  also have "\<dots> = [1000, 2000]" by code_simp
  finally have d: "delays ?run = [1000, 2000]" .
  show ?thesis
    by (simp add: submitInterestForm_def Let_def o' c d handleDatabaseError_def)
qed

text \<open>The theorem at a store that always answers with the unique violation.\<close>

theorem submitInterestForm_duplicate_witness:
  "submitInterestForm True 0 ''2024-01-01T00:00:00.000Z'' duplicateStore sampleForm ''landing_page'' =
     \<lparr>settled = Fulfilled \<lparr>DatabaseResult.data = None,
                            DatabaseResult.error = Some (Error ''This email is already registered''),
                            DatabaseResult.success = False\<rparr>,
      networkCalls = 3, waits = [1000, 2000]\<rparr>"
  by (rule submitInterestForm_duplicate) (simp add: duplicateStore_def)

text \<open>The claim as stated fails there: three attempts are made, and two delays are waited.\<close>

theorem submitInterestForm_duplicate_counterexample:
  "\<not> (networkCalls (submitInterestForm True 0 ''2024-01-01T00:00:00.000Z'' duplicateStore
          sampleForm ''landing_page'') = 1 \<and>
       waits (submitInterestForm True 0 ''2024-01-01T00:00:00.000Z'' duplicateStore
          sampleForm ''landing_page'') = [])"
  by code_simp

section \<open>Claim C2: two calls of submit\<close>

text \<open>
  Claim C2, as amended. The claim states that a second \<open>submit()\<close> while the first is pending
  is a no-op. The hook has no such guard (the forms disable their submit button while
  \<open>loading\<close> holds instead): every call of \<open>submit\<close>, whatever the state of the hook, starts
  one more call of \<open>submitInterestForm\<close>, so that two calls in immediate succession leave
  two submissions in flight.
\<close>

theorem submit_starts_a_call_each_time:
  "inFlight (submit d src h) = inFlight h @ [(d, src)] \<and>
   length (inFlight (submit d' src' (submit d src h))) = length (inFlight h) + 2"
  by (simp add: submit_def)

text \<open>The claim as stated fails on a fresh hook: the first call is pending (\<open>loading\<close> holds,
  nothing has settled), and after the second call two submissions are in flight, not one.\<close>

theorem submit_twice_counterexample:
  "SubmissionState.loading (FormSubmissionHook.state (submit sampleForm ''landing_page'' useFormSubmission)) \<and>
   inFlight (submit sampleForm ''landing_page'' useFormSubmission) = [(sampleForm, ''landing_page'')] \<and>
   length (inFlight (submit sampleForm ''landing_page''
                       (submit sampleForm ''landing_page'' useFormSubmission))) \<noteq> 1"
  by (simp add: submit_def useFormSubmission_def)

section \<open>Claim C3: retry with exponential backoff\<close>

text \<open>
  Claim C3. \<open>withRetry\<close> calls \<open>fn\<close> at most \<open>maxAttempts\<close> times; after each failed attempt
  \<open>k\<close> that is not the last one it waits \<open>delayMs * backoffMultiplier ^ (k - 1)\<close>; when the
  \<open>k\<close>-th call is the first to succeed, its value is returned after exactly \<open>k\<close> calls;
  and when all \<open>maxAttempts\<close> calls fail, the error of the last call is thrown. The witness
  is the scenario of the claim: three attempts, 100 ms, multiplier 2, two failures and then a
  success, which returns the value at the third attempt after waiting 100 ms and 200 ms.
\<close>

theorem withRetry_backoff:
  "calls (withRetry fn config) \<le> maxAttempts config \<and>
   delays (withRetry fn config) =
     map (\<lambda>k. delayMs config * backoffMultiplier config ^ (k - 1)) [1 ..< calls (withRetry fn config)] \<and>
   (\<forall>k v. 1 \<le> k \<and> k \<le> maxAttempts config \<and> fn k = Inr v \<and> (\<forall>j. 1 \<le> j \<and> j < k \<longrightarrow> isl (fn j)) \<longrightarrow>
      outcome (withRetry fn config) = Inr v \<and> calls (withRetry fn config) = k) \<and>
   (1 \<le> maxAttempts config \<and> (\<forall>j. 1 \<le> j \<and> j \<le> maxAttempts config \<longrightarrow> isl (fn j)) \<longrightarrow>
      outcome (withRetry fn config) = Inl (Some (projl (fn (maxAttempts config)))) \<and>
      calls (withRetry fn config) = maxAttempts config)"
  unfolding withRetry_def
  using withRetry_loop_calls_le [of 1 config fn None "[]"]
    withRetry_loop_delays [of fn config 1 None "[]"]
    withRetry_loop_success [of 1 _ config fn _ None "[]"]
    withRetry_loop_exhausted [of 1 config fn None "[]"]
  by auto

theorem withRetry_backoff_witness:
  "outcome (withRetry (\<lambda>k. if k < 3 then Inl (Error ''network'') else Inr ''stored'')
      \<lparr>maxAttempts = 3, delayMs = 100, backoffMultiplier = 2\<rparr>) = Inr ''stored'' \<and>
   calls (withRetry (\<lambda>k. if k < 3 then Inl (Error ''network'') else Inr ''stored'')
      \<lparr>maxAttempts = 3, delayMs = 100, backoffMultiplier = 2\<rparr>) = 3 \<and>
   delays (withRetry (\<lambda>k. if k < 3 then Inl (Error ''network'') else Inr ''stored'')
      \<lparr>maxAttempts = 3, delayMs = 100, backoffMultiplier = 2\<rparr>) = [100, 200]"
proof -
  let ?fn = "\<lambda>k::nat. if k < 3 then Inl (Error ''network'') else Inr ''stored''"
  let ?c = "\<lparr>maxAttempts = 3, delayMs = 100, backoffMultiplier = 2\<rparr>"
  note t = withRetry_backoff [of ?fn ?c]
  from t have d: "delays (withRetry ?fn ?c) =
     map (\<lambda>k. delayMs ?c * backoffMultiplier ?c ^ (k - 1)) [1 ..< calls (withRetry ?fn ?c)]"
    by blast
  from t have "1 \<le> (3::nat) \<and> 3 \<le> maxAttempts ?c \<and> ?fn 3 = Inr ''stored'' \<and>
      (\<forall>j. 1 \<le> j \<and> j < 3 \<longrightarrow> isl (?fn j)) \<longrightarrow>
      outcome (withRetry ?fn ?c) = Inr ''stored'' \<and> calls (withRetry ?fn ?c) = 3"
    by blast
  then have oc: "outcome (withRetry ?fn ?c) = Inr ''stored'' \<and> calls (withRetry ?fn ?c) = 3"
    by simp
  have "map (\<lambda>k. delayMs ?c * backoffMultiplier ?c ^ (k - 1)) [1 ..< 3] = [100, 200]"
    by code_simp
  with d oc show ?thesis by simp
qed

section \<open>Claim C4: sanitizing twice\<close>

text \<open>
  Where the first letter of a word is the sharp s, the first pass writes \<open>SS\<close> and the
  second pass lowers the second \<open>S\<close>.
\<close>

lemma sanitizeName_sharpS:
  "sanitizeName [sharpS, Latin1 CHR ''a''] = js ''SSa'' \<and>
   sanitizeName (sanitizeName [sharpS, Latin1 CHR ''a'']) = js ''Ssa''"
  by code_simp

text \<open>
  Claim C4, as amended. The claim states that \<open>sanitizeFormData\<close> is idempotent on every
  form. On forms whose strings are made of the code units U+0000 to U+00FF, U+0178, U+039C
  and U+03BC, it is idempotent on every form in which the name contains no sharp s (U+00DF),
  in which stripping the tags exposes no white space at either end of the trimmed name or
  of a trimmed optional field, and in which no non-empty optional field is reduced to the
  empty string: there, sanitizing a second time changes no field.
\<close>

theorem sanitizeFormData_idempotent:
  assumes "sharpS \<notin> set (name x)"
    and "tagsExposeNoSpace (name x)"
    and "optionalSurvives (FormData.message x)"
    and "optionalSurvives (company x)"
    and "optionalSurvives (phone x)"
  shows "sanitizeFormData (sanitizeFormData x) = sanitizeFormData x"
proof -
  from assms(2,1) have "sanitizeName (sanitizeName (name x)) = sanitizeName (name x)"
    unfolding tagsExposeNoSpace_def by (rule sanitizeName_idem)
  moreover have "sanitizeOptional (sanitizeOptional v) = sanitizeOptional v"
    if "optionalSurvives v" for v
    using that unfolding optionalSurvives_def tagsExposeNoSpace_def by (rule sanitizeOptional_idem)
  ultimately show ?thesis
    using assms(3-5) by (simp add: sanitizeFormData_def sanitizeEmail_idem)
qed

text \<open>The theorem at a form with padding, tags inside the text, mixed case, accented
  letters and a no-break space.\<close>

theorem sanitizeFormData_idempotent_witness:
  "sharpS \<notin> set (name plainForm) \<and>
   tagsExposeNoSpace (name plainForm) \<and> optionalSurvives (FormData.message plainForm) \<and>
   optionalSurvives (company plainForm) \<and> optionalSurvives (phone plainForm) \<and>
   sanitizeFormData (sanitizeFormData plainForm) = sanitizeFormData plainForm"
proof -
  have s: "sharpS \<notin> set (name plainForm)" by code_simp
  have a: "tagsExposeNoSpace (name plainForm)" by code_simp
  have b: "optionalSurvives (FormData.message plainForm)" by code_simp
  have c: "optionalSurvives (company plainForm)" by code_simp
  have d: "optionalSurvives (phone plainForm)" by code_simp
  from sanitizeFormData_idempotent [OF s a b c d] s a b c d show ?thesis by simp
qed

text \<open>The claim as stated fails on a name whose tag is followed by a space, and on a
  message of spaces only: the second pass changes the name and the message.\<close>

theorem sanitizeFormData_idempotent_counterexample:
  "sanitizeFormData (sanitizeFormData taggedForm) \<noteq> sanitizeFormData taggedForm \<and>
   name (sanitizeFormData taggedForm) = js '' Ann'' \<and>
   name (sanitizeFormData (sanitizeFormData taggedForm)) = js ''Ann'' \<and>
   FormData.message (sanitizeFormData taggedForm) = Some [] \<and>
   FormData.message (sanitizeFormData (sanitizeFormData taggedForm)) = None"
  by code_simp

section \<open>Claim C5: sanitize, then validate\<close>

text \<open>\<open>validateAndSanitizeFormData\<close> validates the sanitized form and returns it.\<close>

lemma validateAndSanitizeFormData_eq:
  "validateAndSanitizeFormData d = (validateFormData (sanitizeFormData d), sanitizeFormData d)"
  by (simp add: validateAndSanitizeFormData_def Let_def)

text \<open>\<open>validateField\<close> looks the rules up before it looks at the value, and there are no
  rules for \<open>subscribed_newsletter\<close>: the field is an error whatever its value, and no form
  is valid.\<close>

lemma validateField_subscribed_newsletter:
  "validateField Subscribed_newsletter v =
     Some \<lparr>field = Subscribed_newsletter, message = ''Invalid subscribed_newsletter format'',
           code = ''INVALID_FIELD''\<rparr>"
  by (simp add: validateField_def msg_invalidFormat_def)

lemma validateFormData_never_valid: "\<not> ValidationResult.isValid (validateFormData d)"
  by (simp add: validateFormData_def objectKeys_def List.map_filter_simps
      validateField_subscribed_newsletter Let_def split: option.splits)

text \<open>
  Claim C5, at its end-to-end example. The form is sanitized to the name \<open>John Doe\<close> and the
  email \<open>john@ex.com\<close>, as the claim states; validating the sanitized form does not yield
  \<open>isValid = true\<close> with no errors, though: it yields \<open>isValid = false\<close> and the error
  \<open>INVALID_FIELD\<close> for \<open>subscribed_newsletter\<close>.
\<close>

theorem validateAndSanitizeFormData_end_to_end:
  "validateAndSanitizeFormData endToEndForm =
     (\<lparr>ValidationResult.isValid = False,
       ValidationResult.errors = [\<lparr>field = Subscribed_newsletter,
                  message = ''Invalid subscribed_newsletter format'', code = ''INVALID_FIELD''\<rparr>]\<rparr>,
      \<lparr>name = js ''John Doe'', email = js ''john@ex.com'', subscribed_newsletter = True,
       message = None, company = None, phone = None\<rparr>)"
  by code_simp

section \<open>Claim C6: the rules of validateField\<close>

text \<open>
  For each of the five fields that have rules, \<open>validateField\<close> returns what the
  specification says: no error for a boolean; for a string or undefined, the
  \<open>REQUIRED_FIELD\<close> error for an empty or undefined required field, no error for an empty or
  undefined optional field, and otherwise the first violated rule among minimum length,
  maximum length and pattern. A value shorter than the minimum length is reported as
  \<open>MIN_LENGTH\<close>, whether or not it matches the pattern.
\<close>

lemma validateField_ruled_fields:
  assumes "f \<noteq> Subscribed_newsletter"
  shows "validateField f (toFieldValue v) = validateField_spec f v"
    and "validateField f (VBoolean b) = None"
    and "trim s \<noteq> [] \<and> spec_minLength f = Some m \<and> length (trim s) < m \<longrightarrow>
           map_option code (validateField f (VString s)) = Some ''MIN_LENGTH''"
proof -
  from assms show "validateField f (toFieldValue v) = validateField_spec f v"
    by (cases f; cases v)
      (simp_all add: validateField_def validateField_spec_def isRequiredField_def Let_def)
  from assms show "validateField f (VBoolean b) = None"
    by (cases f) (simp_all add: validateField_def Let_def)
  from assms show "trim s \<noteq> [] \<and> spec_minLength f = Some m \<and> length (trim s) < m \<longrightarrow>
      map_option code (validateField f (VString s)) = Some ''MIN_LENGTH''"
    by (cases f) (auto simp add: validateField_def Let_def)
qed

lemma validateField_name_too_short:
  "validateField Name (VString (js ''1'')) =
     Some \<lparr>field = Name, message = ''name must be at least 2 characters long'', code = ''MIN_LENGTH''\<rparr> \<and>
   \<not> testNamePattern (trim (js ''1''))"
  by code_simp

text \<open>
  Claim C6, at the field \<open>subscribed_newsletter\<close> and the value \<open>true\<close>. The claim covers
  every field and value: this field is not a required field that is empty, and the rule
  table has no minimum length, maximum length or pattern for it, so no rule is violated and
  the claim gives null. \<open>validateField\<close> looks the rules up before it looks at the value and
  returns the error \<open>INVALID_FIELD\<close>, for the value \<open>false\<close> as well.
\<close>

theorem validateField_boolean_field_is_invalid:
  "VALIDATION_RULES Subscribed_newsletter = None \<and>
   validateField Subscribed_newsletter (VBoolean True) =
     Some \<lparr>field = Subscribed_newsletter, message = ''Invalid subscribed_newsletter format'',
           code = ''INVALID_FIELD''\<rparr> \<and>
   validateField Subscribed_newsletter (VBoolean False) =
     Some \<lparr>field = Subscribed_newsletter, message = ''Invalid subscribed_newsletter format'',
           code = ''INVALID_FIELD''\<rparr>"
  by (simp add: validateField_def msg_invalidFormat_def)

section \<open>Claim C7: isValid and the list of errors\<close>

text \<open>
  Claim C7, as amended. The claim states that \<open>isValid\<close> holds if and only if there are no
  errors, for \<open>validateFormData\<close> and for the state of the validation hook after every
  operation, the initial state and the state after a reset included. The equivalence holds
  for every result of \<open>validateFormData\<close>. In the hook, after every sequence of operations,
  \<open>isValid\<close> holds only when there are no errors; the converse fails in a form that has not
  been validated: in the initial state and after \<open>resetForm\<close> there are no errors and
  \<open>isValid\<close> is false.
\<close>

theorem isValid_only_without_errors:
  "(ValidationResult.isValid (validateFormData d) \<longleftrightarrow> ValidationResult.errors (validateFormData d) = []) \<and>
   (FormValidationState.isValid (validationState (applyOps options ops (useFormValidation options))) \<longrightarrow>
      FormValidationState.errors (validationState (applyOps options ops (useFormValidation options))) = []) \<and>
   \<not> FormValidationState.isValid (validationState (useFormValidation options)) \<and>
   FormValidationState.errors (validationState (useFormValidation options)) = [] \<and>
   \<not> FormValidationState.isValid (validationState (resetForm options h)) \<and>
   FormValidationState.errors (validationState (resetForm options h)) = []"
  using inv_applyOps [OF inv_init, of options ops options] validateFormData_isValid_iff [of d]
  by (simp add: validOnlyWithoutErrors_def useFormValidation_def resetForm_def)

text \<open>The theorem at a hook in which the name has been validated: \<open>isValid\<close> holds there.\<close>

theorem isValid_only_without_errors_witness:
  "FormValidationState.isValid (validationState
     (applyOps defaultValidationOptions [ValidateField Name (VString (js ''Ann Lee''))]
        (useFormValidation defaultValidationOptions))) \<and>
   FormValidationState.errors (validationState
     (applyOps defaultValidationOptions [ValidateField Name (VString (js ''Ann Lee''))]
        (useFormValidation defaultValidationOptions))) = []"
proof -
  have "FormValidationState.isValid (validationState
     (applyOps defaultValidationOptions [ValidateField Name (VString (js ''Ann Lee''))]
        (useFormValidation defaultValidationOptions)))"
    by code_simp
  with isValid_only_without_errors [of sampleForm defaultValidationOptions
      "[ValidateField Name (VString (js ''Ann Lee''))]" "useFormValidation defaultValidationOptions"]
  show ?thesis by blast
qed

text \<open>The claim as stated fails in the initial state of the hook.\<close>

theorem isValid_iff_no_errors_counterexample:
  "\<not> (FormValidationState.isValid (validationState (useFormValidation defaultValidationOptions)) \<longleftrightarrow>
        FormValidationState.errors (validationState (useFormValidation defaultValidationOptions)) = [])"
  by (simp add: useFormValidation_def)

section \<open>Claim C8: reset and the pending timers\<close>

text \<open>\<open>resetForm\<close> restores the initial form data, clears the errors and the flags, and
  cancels the debounce timer that the hook holds.\<close>

lemma resetForm_restores_and_cancels:
  "formData (resetForm options h) = initialData options \<and>
   validationState (resetForm options h) =
     \<lparr>errors = [], isValid = False, isDirty = False, touched = {}\<rparr> \<and>
   (debounceTimerRef h = Some i \<longrightarrow> i \<notin> fst ` set (timers (resetForm options h)))"
  by (auto simp add: resetForm_def clearRef_def clearTimeout_def split: option.splits)

text \<open>\<open>reset\<close> of the submission hook and of the email hook leave every timer pending.\<close>

lemma reset_keeps_timers:
  "timers (reset h) = timers h \<and> resetTimeoutRef (reset h) = resetTimeoutRef h \<and>
   timers (resetEmailCheck g) = timers g"
  by (simp add: reset_def resetEmailCheck_def)

text \<open>
  Claim C8, at a failing run. \<open>reset\<close> of the submission hook sets the state and leaves the
  timers alone. After a successful submission has armed the auto-reset timer (due at 5000)
  and \<open>reset\<close> has been called, that timer is still pending; a next submission then sets
  \<open>loading\<close>, and at 5000 the old timer fires and clears \<open>loading\<close> while that submission
  is still in flight.
\<close>

theorem reset_leaves_auto_reset_timer:
  "timers (reset (submitSettled \<lparr>autoReset = None, resetDelay = None\<rparr> 0
             (Fulfilled \<lparr>DatabaseResult.data = Some sampleRow, DatabaseResult.error = None,
                         DatabaseResult.success = True\<rparr>)
             (submit sampleForm ''landing_page'' useFormSubmission))) = [(1, 5000, ())] \<and>
   SubmissionState.loading (FormSubmissionHook.state
     (submit otherForm ''landing_page''
       (reset (submitSettled \<lparr>autoReset = None, resetDelay = None\<rparr> 0
                (Fulfilled \<lparr>DatabaseResult.data = Some sampleRow, DatabaseResult.error = None,
                            DatabaseResult.success = True\<rparr>)
                (submit sampleForm ''landing_page'' useFormSubmission))))) \<and>
   \<not> SubmissionState.loading (FormSubmissionHook.state
     (advanceFormSubmission 5000
       (submit otherForm ''landing_page''
         (reset (submitSettled \<lparr>autoReset = None, resetDelay = None\<rparr> 0
                  (Fulfilled \<lparr>DatabaseResult.data = Some sampleRow, DatabaseResult.error = None,
                              DatabaseResult.success = True\<rparr>)
                  (submit sampleForm ''landing_page'' useFormSubmission)))))) \<and>
   inFlight
     (advanceFormSubmission 5000
       (submit otherForm ''landing_page''
         (reset (submitSettled \<lparr>autoReset = None, resetDelay = None\<rparr> 0
                  (Fulfilled \<lparr>DatabaseResult.data = Some sampleRow, DatabaseResult.error = None,
                              DatabaseResult.success = True\<rparr>)
                  (submit sampleForm ''landing_page'' useFormSubmission))))) =
     [(otherForm, ''landing_page'')]"
  by code_simp

section \<open>Claim C9: the debounced email check\<close>

text \<open>
  Claim C9. In every state that a hook can reach (by calls of \<open>checkEmail\<close>, answers of the
  store, resets and the passing of time), a debounced \<open>checkEmail b\<close> leaves exactly one
  timer pending, its own, due one debounce delay later: whatever timer an earlier update
  had armed is cancelled. No call of \<open>checkEmailExists\<close> is made before that time, and
  once it has passed exactly one has been made, at that time, for the trimmed and
  lowercased \<open>b\<close> (none when \<open>b\<close> is blank, which \<open>performCheck\<close> does not send to the store).
  The witness is the scenario of the claim: \<open>a@x.com\<close> at time 0 and \<open>b@x.com\<close> at time 100
  with a delay of 500 give no check until 599 and one check, for \<open>b@x.com\<close>, at 600.
\<close>

theorem checkEmail_last_write_wins:
  "timers (checkEmail options b False (applyEmailCheckOps options ops useEmailCheck)) =
     [(nextTimerId (applyEmailCheckOps options ops useEmailCheck),
       now (applyEmailCheckOps options ops useEmailCheck) + debounceDelay options, b)] \<and>
   (t < now (applyEmailCheckOps options ops useEmailCheck) + debounceDelay options \<longrightarrow>
      requests (advanceEmailCheck t (checkEmail options b False (applyEmailCheckOps options ops useEmailCheck))) =
        requests (applyEmailCheckOps options ops useEmailCheck)) \<and>
   (now (applyEmailCheckOps options ops useEmailCheck) + debounceDelay options \<le> t \<longrightarrow>
      requests (advanceEmailCheck t (checkEmail options b False (applyEmailCheckOps options ops useEmailCheck))) =
        requests (applyEmailCheckOps options ops useEmailCheck) @
          (if b = [] \<or> trim b = [] then []
           else [(now (applyEmailCheckOps options ops useEmailCheck) + debounceDelay options,
                  toLowerCase (trim b))]) \<and>
      timers (advanceEmailCheck t (checkEmail options b False (applyEmailCheckOps options ops useEmailCheck))) = [])"
proof -
  let ?h = "applyEmailCheckOps options ops useEmailCheck"
  let ?h' = "checkEmail options b False ?h"
  have inv: "onlyRefTimer ?h"
    by (rule onlyRefTimer_applyEmailCheckOps) (rule onlyRefTimer_useEmailCheck)
  note c = checkEmail_debounced [OF inv, of options b]
  from c have tm: "timers ?h' = [(nextTimerId ?h, now ?h + debounceDelay options, b)]"
    and nw: "now ?h' = now ?h" and rq: "requests ?h' = requests ?h" by simp_all
  have early: "requests (advanceEmailCheck t ?h') = requests ?h"
    if "t < now ?h + debounceDelay options"
    using advanceEmailCheck_early [of ?h' t] that by (simp only: tm rq) simp
  have late: "requests (advanceEmailCheck t ?h') =
        requests ?h @ (if b = [] \<or> trim b = [] then []
                       else [(now ?h + debounceDelay options, toLowerCase (trim b))]) \<and>
      timers (advanceEmailCheck t ?h') = []"
    if "now ?h + debounceDelay options \<le> t"
    using advanceEmailCheck_due [OF tm that] by (simp only: nw rq) (simp add: max_def)
  from tm early late show ?thesis by blast
qed

theorem checkEmail_last_write_wins_witness:
  "now (applyEmailCheckOps \<lparr>EmailCheckOptions.debounceMs = Some 500\<rparr>
          [CheckEmail (js ''a@x.com'') False, AdvanceEmailCheck 100] useEmailCheck) = 100 \<and>
   timers (applyEmailCheckOps \<lparr>EmailCheckOptions.debounceMs = Some 500\<rparr>
          [CheckEmail (js ''a@x.com'') False, AdvanceEmailCheck 100] useEmailCheck) = [(1, 500, js ''a@x.com'')] \<and>
   timers (checkEmail \<lparr>EmailCheckOptions.debounceMs = Some 500\<rparr> (js ''b@x.com'') False
     (applyEmailCheckOps \<lparr>EmailCheckOptions.debounceMs = Some 500\<rparr>
          [CheckEmail (js ''a@x.com'') False, AdvanceEmailCheck 100] useEmailCheck)) = [(2, 600, js ''b@x.com'')] \<and>
   requests (advanceEmailCheck 599 (checkEmail \<lparr>EmailCheckOptions.debounceMs = Some 500\<rparr> (js ''b@x.com'') False
     (applyEmailCheckOps \<lparr>EmailCheckOptions.debounceMs = Some 500\<rparr>
          [CheckEmail (js ''a@x.com'') False, AdvanceEmailCheck 100] useEmailCheck))) = [] \<and>
   requests (advanceEmailCheck 600 (checkEmail \<lparr>EmailCheckOptions.debounceMs = Some 500\<rparr> (js ''b@x.com'') False
     (applyEmailCheckOps \<lparr>EmailCheckOptions.debounceMs = Some 500\<rparr>
          [CheckEmail (js ''a@x.com'') False, AdvanceEmailCheck 100] useEmailCheck))) = [(600, js ''b@x.com'')]"
proof -
  let ?o = "\<lparr>EmailCheckOptions.debounceMs = Some 500\<rparr>"
  let ?h = "applyEmailCheckOps ?o [CheckEmail (js ''a@x.com'') False, AdvanceEmailCheck 100] useEmailCheck"
  have n: "now ?h = 100" by code_simp
  have i: "nextTimerId ?h = 2" by code_simp
  have r: "requests ?h = []" by code_simp
  have p: "timers ?h = [(1, 500, js ''a@x.com'')]" by code_simp
  have d: "debounceDelay ?o = 500" by code_simp
  have e: "js ''b@x.com'' \<noteq> [] \<and> trim (js ''b@x.com'') \<noteq> [] \<and>
      toLowerCase (trim (js ''b@x.com'')) = js ''b@x.com''"
    by code_simp
  from checkEmail_last_write_wins [of ?o "js ''b@x.com''" "[CheckEmail (js ''a@x.com'') False, AdvanceEmailCheck 100]" 599]
    checkEmail_last_write_wins [of ?o "js ''b@x.com''" "[CheckEmail (js ''a@x.com'') False, AdvanceEmailCheck 100]" 600]
    n i r p e
  show ?thesis by (simp only: n i r d) simp
qed

section \<open>Claim C10: the optional fields of a sanitized form\<close>

text \<open>
  Claim C10. For each optional field (message, company, phone), \<open>sanitizeFormData\<close> returns
  undefined exactly when the field is absent, undefined or the empty string; a non-empty
  value is returned as the string \<open>sanitizeInput\<close> makes of it, which is the empty string
  (and not undefined) when the value is white space only or one tag only.
\<close>

theorem sanitizeFormData_optional_fields:
  assumes "g \<in> {FormData.message, company, phone}"
  shows "g (sanitizeFormData d) =
           (case g d of None \<Rightarrow> None | Some s \<Rightarrow> if s = [] then None else Some (sanitizeInput s)) \<and>
         (g (sanitizeFormData d) = None \<longleftrightarrow> g d = None \<or> g d = Some []) \<and>
         (\<forall>s. g d = Some s \<and> s \<noteq> [] \<and>
              (list_all isSpace s \<or> (\<exists>t. s = Latin1 CHR ''<'' # t @ [Latin1 CHR ''>''] \<and> Latin1 CHR ''>'' \<notin> set t)) \<longrightarrow>
            g (sanitizeFormData d) = Some [])"
  using assms
  by (auto simp add: sanitizeFormData_def sanitizeOptional_def sanitizeInput_all_space
      sanitizeInput_tag split: option.splits)

theorem sanitizeFormData_optional_fields_witness:
  "FormData.message \<in> {FormData.message, company, phone} \<and>
   FormData.message (sanitizeFormData
      \<lparr>name = js ''Ann'', email = js ''ann@x.org'', subscribed_newsletter = False,
       message = Some (js ''   ''), company = Some (js ''<br>''), phone = Some (js '''')\<rparr>) = Some []"
  using sanitizeFormData_optional_fields [of FormData.message
      "\<lparr>name = js ''Ann'', email = js ''ann@x.org'', subscribed_newsletter = False,
       message = Some (js ''   ''), company = Some (js ''<br>''), phone = Some (js '''')\<rparr>"]
  by (auto simp add: js_def sanitizeInput_all_space)

end
